theory Spec2Isabelle
  imports Main
begin

section \<open>Python values, exceptions and responses\<close>

text \<open>
  Leaf values of a decoded JSON body, as the handlers of
  \<^verbatim>\<open>minion/backend/views/sites.py\<close> see them. \<open>PNone\<close> is both JSON \<open>null\<close> and
  the result of \<open>dict.get\<close> on a missing key. Floating-point numbers and nested objects
  are left out.
\<close>

datatype pyval = PNone | PBool bool | PInt int | PStr string | PList "pyval list"

text \<open>Python truthiness, as used by \<open>if x:\<close>.\<close>

fun truthy :: "pyval \<Rightarrow> bool" where
  "truthy PNone = False"
| "truthy (PBool b) = b"
| "truthy (PInt i) = (i \<noteq> 0)"
| "truthy (PStr s) = (s \<noteq> [])"
| "truthy (PList xs) = (xs \<noteq> [])"

text \<open>A dictionary with string keys; \<open>dict_get d k\<close> is \<open>d.get(k)\<close>.\<close>

type_synonym pydict = "string \<rightharpoonup> pyval"

definition dict_get :: "pydict \<Rightarrow> string \<Rightarrow> pyval" where
  "dict_get d k = (case d k of None \<Rightarrow> PNone | Some v \<Rightarrow> v)"

text \<open>The exceptions the handlers can raise without catching them.\<close>

datatype exn = TypeError | KeyError | AttributeError

section \<open>Stored documents\<close>

text \<open>
  A site document. Older documents have no \<open>verification\<close> field
  (\<open>site.get('verification')\<close> is \<open>None\<close>); \<open>v_value\<close> is \<open>None\<close> for a site
  created with verification disabled.
\<close>

record verification =
  v_enabled :: bool
  v_value :: "string option"

record site_doc =
  s_id :: string
  s_url :: string
  s_plans :: "string list"
  s_created :: nat
  s_verification :: "verification option"

record group_doc =
  g_name :: string
  g_description :: string
  g_sites :: "string list"

text \<open>A credential document: the \<open>data\<close> dictionary of \<open>setCredentials\<close>.\<close>

record cred_doc =
  c_site :: "string option"
  c_plan :: "string option"
  c_authData :: pydict

text \<open>The five crontab strings and the periodic-task document of \<open>scanschedule\<close>.\<close>

record crontab =
  minute :: string
  hour :: string
  day_of_week :: string
  day_of_month :: string
  month_of_year :: string

record sched_doc =
  p_cls :: string
  p_task :: string
  p_args :: "string list"
  p_site :: string
  p_queue :: string
  p_routing_key :: string
  p_exchange :: string
  p_plan :: string
  p_name :: string
  p_enabled :: bool
  p_crontab :: crontab

text \<open>
  Every call that writes to a collection is recorded, in the order the handler issues it,
  so that "not written" can be told apart from "written with the same content".
\<close>

datatype write_op =
    Sites_insert string
  | Sites_set_plans string
  | Sites_set_verification string
  | Groups_addToSet string string
  | Groups_pull string string
  | Scanschedules_insert string string
  | Scanschedules_set string string
  | SiteCredentials_remove "string option" "string option"
  | SiteCredentials_insert "string option" "string option"
  | SiteCredentials_set "string option" "string option"

text \<open>The four collections imported from \<open>minion.backend.views.base\<close>, in insertion order.\<close>

record db =
  sites :: "site_doc list"
  groups :: "group_doc list"
  scanschedules :: "sched_doc list"
  siteCredentials :: "cred_doc list"
  oplog :: "write_op list"

text \<open>
  \<open>collection.update(query, change)\<close> without \<open>multi\<close> changes the first document that
  matches and nothing when none does; \<open>find_one\<close> returns the first match.
\<close>

fun update_first :: "('a \<Rightarrow> bool) \<Rightarrow> ('a \<Rightarrow> 'a) \<Rightarrow> 'a list \<Rightarrow> 'a list" where
  "update_first q f [] = []"
| "update_first q f (d # ds) = (if q d then f d # ds else d # update_first q f ds)"

definition find_one :: "('a \<Rightarrow> bool) \<Rightarrow> 'a list \<Rightarrow> 'a option" where
  "find_one q ds = List.find q ds"

section \<open>Responses\<close>

text \<open>A site as \<open>jsonify\<close> serialises it, with the derived \<open>groups\<close> list added.\<close>

record site_view =
  sv_site :: site_doc
  sv_groups :: "string list"

type_synonym credinfo = "string option \<rightharpoonup> (string option \<rightharpoonup> cred_doc)"

datatype response =
    Reason string
  | Site_response site_view
  | CredInfo credinfo
  | Message string bool
  | Errors string "string list"

fun success :: "response \<Rightarrow> bool" where
  "success (Reason r) = False"
| "success (Site_response v) = True"
| "success (CredInfo ci) = True"
| "success (Message m b) = b"
| "success (Errors m es) = False"

section \<open>Credentials\<close>

definition cred_match :: "string option \<Rightarrow> string option \<Rightarrow> cred_doc \<Rightarrow> bool" where
  "cred_match site plan d = (c_site d = site \<and> c_plan d = plan)"

text \<open>
  \<open>get_credInfo\<close>: \<open>data['authData']\<close> is the fetched document's own dictionary, so the
  assignment of the empty password changes the fetched copy, never the collection.
\<close>

fun credInfo_loop :: "cred_doc list \<Rightarrow> credinfo \<Rightarrow> credinfo" where
  "credInfo_loop [] credInfo = credInfo"
| "credInfo_loop (site # rest) credInfo =
     (let authData = (c_authData site)(''password'' \<mapsto> PStr '''');
          data = \<lparr>c_site = c_site site, c_plan = c_plan site, c_authData = authData\<rparr>;
          inner = (case credInfo (c_site site) of None \<Rightarrow> Map.empty | Some m \<Rightarrow> m)
      in credInfo_loop rest (credInfo(c_site site \<mapsto> inner(c_plan site \<mapsto> data))))"

definition get_credInfo :: "db \<Rightarrow> (exn + response) \<times> db" where
  "get_credInfo d = (Inr (CredInfo (credInfo_loop (siteCredentials d) Map.empty)), d)"

text \<open>The eleven fields \<open>setCredentials\<close> always writes on an existing document.\<close>

definition cred_fields :: "string list" where
  "cred_fields =
     [''method'', ''url'', ''email'', ''before_login_element_xpath'', ''login_button_xpath'',
      ''login_script'', ''after_login_element_xpath'', ''username'', ''username_field_xpath'',
      ''password_field_xpath'', ''expected_cookies'']"

text \<open>\<open>{"$set": {"authData.k": v, ...}}\<close> on one document.\<close>

fun set_authData :: "(string \<times> pyval) list \<Rightarrow> cred_doc \<Rightarrow> cred_doc" where
  "set_authData [] d = d"
| "set_authData ((k, v) # kvs) d = set_authData kvs (d\<lparr>c_authData := (c_authData d)(k \<mapsto> v)\<rparr>)"

record cred_req =
  cr_site :: "string option"
  cr_plan :: "string option"
  cr_authData :: "pydict option"

definition setCredentials :: "db \<Rightarrow> cred_req \<Rightarrow> (exn + response) \<times> db" where
  "setCredentials d cred_data =
     (let site = cr_site cred_data; plan = cr_plan cred_data in
      case cr_authData cred_data of
        None \<Rightarrow> (Inl AttributeError, d)
      | Some authData \<Rightarrow>
          let data = \<lparr>c_site = site, c_plan = plan, c_authData = authData\<rparr> in
          if truthy (dict_get authData ''remove'') then
            (Inr (Message ''Removed Site Credentials'' True),
             d\<lparr>siteCredentials := filter (\<lambda>c. \<not> cred_match site plan c) (siteCredentials d),
               oplog := oplog d @ [SiteCredentials_remove site plan]\<rparr>)
          else
            (case find_one (cred_match site plan) (siteCredentials d) of
               None \<Rightarrow>
                 (Inr (Message ''Added Site Credentials'' True),
                  d\<lparr>siteCredentials := siteCredentials d @ [data],
                    oplog := oplog d @ [SiteCredentials_insert site plan]\<rparr>)
             | Some siteCreds \<Rightarrow>
                 let updatedAuthData = map (\<lambda>k. (k, dict_get authData k)) cred_fields;
                     password = dict_get authData ''password'';
                     updatedAuthData =
                       (if truthy password then updatedAuthData @ [(''password'', password)]
                        else updatedAuthData)
                 in (Inr (Message ''Added Site Credentials'' True),
                     d\<lparr>siteCredentials :=
                         update_first (cred_match site plan) (set_authData updatedAuthData)
                           (siteCredentials d),
                       oplog := oplog d @ [SiteCredentials_set site plan]\<rparr>)))"

section \<open>Example stores and requests\<close>

definition cred_example :: cred_doc where
  "cred_example = \<lparr>c_site = Some ''http://a.example'', c_plan = Some ''basic'',
      c_authData = [''username'' \<mapsto> PStr ''bob'', ''password'' \<mapsto> PStr ''hunter2'']\<rparr>"

definition db_creds_example :: db where
  "db_creds_example = \<lparr>sites = [], groups = [], scanschedules = [],
      siteCredentials = [cred_example], oplog = []\<rparr>"

definition req_update_example :: cred_req where
  "req_update_example = \<lparr>cr_site = Some ''http://a.example'', cr_plan = Some ''basic'',
      cr_authData = Some [''username'' \<mapsto> PStr ''alice'', ''password'' \<mapsto> PStr '''']\<rparr>"

definition req_remove_example :: cred_req where
  "req_remove_example = \<lparr>cr_site = Some ''http://a.example'', cr_plan = Some ''basic'',
      cr_authData = Some [''remove'' \<mapsto> PBool True]\<rparr>"

section \<open>Scan schedules\<close>

text \<open>
  \<open>str(v)\<close> for a decoded JSON value. Strings are taken to be ASCII, so that \<open>str\<close> of a
  string is the string itself. How Python prints a list depends on the interpreter's
  version, so the printing of lists is a parameter.
\<close>

fun show_nat :: "nat \<Rightarrow> string" where
  "show_nat n = (if n < 10 then [''0123456789'' ! n]
                 else show_nat (n div 10) @ [''0123456789'' ! (n mod 10)])"

definition show_int :: "int \<Rightarrow> string" where
  "show_int i = (if i < 0 then CHR ''-'' # show_nat (nat (- i)) else show_nat (nat i))"

fun py_str :: "(pyval list \<Rightarrow> string) \<Rightarrow> pyval \<Rightarrow> string" where
  "py_str str_list PNone = ''None''"
| "py_str str_list (PBool b) = (if b then ''True'' else ''False'')"
| "py_str str_list (PInt i) = show_int i"
| "py_str str_list (PStr s) = s"
| "py_str str_list (PList xs) = str_list xs"

text \<open>
  The library calls of \<open>scanschedule\<close>: \<open>parses mx mn s\<close> tells whether celery's
  \<open>crontab_parser(max_, min_).parse(s)\<close> returns, rather than raising \<open>ValueError\<close> or
  \<open>ParseException\<close>; \<open>str_list\<close> prints a list.
\<close>

record ext =
  parses :: "nat \<Rightarrow> nat \<Rightarrow> string \<Rightarrow> bool"
  str_list :: "pyval list \<Rightarrow> string"

text \<open>
  \<open>check_cron\<close>: five \<open>try\<close> blocks in sequence, each appending to \<open>cron_errors\<close> when its
  parser raises. \<open>crontab_parser(n)\<close> has \<open>min_ = 0\<close>.
\<close>

definition check_cron :: "(nat \<Rightarrow> nat \<Rightarrow> string \<Rightarrow> bool) \<Rightarrow> crontab \<Rightarrow> string list" where
  "check_cron crontab_parser crontab =
     (let cron_errors = [];
          cron_errors = (if crontab_parser 60 0 (minute crontab) then cron_errors
                         else cron_errors @ [''Error in Value: Minute'']);
          cron_errors = (if crontab_parser 24 0 (hour crontab) then cron_errors
                         else cron_errors @ [''Error in Value: Hour'']);
          cron_errors = (if crontab_parser 7 0 (day_of_week crontab) then cron_errors
                         else cron_errors @ [''Error in Value: Day of Week'']);
          cron_errors = (if crontab_parser 31 1 (day_of_month crontab) then cron_errors
                         else cron_errors @ [''Error in Value: Day of Month'']);
          cron_errors = (if crontab_parser 12 1 (month_of_year crontab) then cron_errors
                         else cron_errors @ [''Error in Value: Month of Year''])
      in cron_errors)"

text \<open>
  The request body of \<open>/scanschedule\<close>. A field of the \<open>schedule\<close> object that is missing
  reads as \<open>PNone\<close>, as \<open>schedule.get\<close> returns it; \<open>rq_schedule\<close>, \<open>rq_plan\<close> and
  \<open>rq_target\<close> are \<open>None\<close> when the key is missing or \<open>null\<close>.
\<close>

record sched_req =
  sq_minute :: pyval
  sq_hour :: pyval
  sq_dayOfWeek :: pyval
  sq_dayOfMonth :: pyval
  sq_monthOfYear :: pyval
  sq_remove :: pyval

record scan_req =
  rq_scan_id :: pyval
  rq_schedule :: "sched_req option"
  rq_plan :: "string option"
  rq_target :: "string option"

text \<open>The \<open>crontab\<close> dictionary built from the request: \<open>str\<close> of each field.\<close>

definition request_crontab :: "ext \<Rightarrow> sched_req \<Rightarrow> crontab" where
  "request_crontab e schedule =
     \<lparr>minute = py_str (str_list e) (sq_minute schedule),
      hour = py_str (str_list e) (sq_hour schedule),
      day_of_week = py_str (str_list e) (sq_dayOfWeek schedule),
      day_of_month = py_str (str_list e) (sq_dayOfMonth schedule),
      month_of_year = py_str (str_list e) (sq_monthOfYear schedule)\<rparr>"

definition sched_match :: "string \<Rightarrow> string \<Rightarrow> sched_doc \<Rightarrow> bool" where
  "sched_match target plan s = (p_site s = target \<and> p_plan s = plan)"

definition scanschedule :: "ext \<Rightarrow> db \<Rightarrow> scan_req \<Rightarrow> (exn + response) \<times> db" where
  "scanschedule e d site =
     (case rq_schedule site of
        None \<Rightarrow> (Inl AttributeError, d)
      | Some schedule \<Rightarrow>
          let removeSite = sq_remove schedule in
          case rq_target site of
            None \<Rightarrow> (Inl TypeError, d)
          | Some target \<Rightarrow>
              let enabled = (if removeSite \<noteq> PNone then False else True);
                  message = (if removeSite \<noteq> PNone then ''Removed Schedule for: '' @ target
                             else ''Scheduled Scan successfully set for site: '' @ target);
                  crontab = request_crontab e schedule;
                  crontab_errors = check_cron (parses e) crontab
              in if crontab_errors \<noteq> [] then
                   (Inr (Errors ''Error in crontab values'' crontab_errors), d)
                 else
                   (case rq_plan site of
                      None \<Rightarrow> (Inl TypeError, d)
                    | Some plan \<Rightarrow>
                        let data = \<lparr>p_cls = ''PeriodicTask'',
                                    p_task = ''minion.backend.tasks.run_scheduled_scan'',
                                    p_args = [target, plan],
                                    p_site = target,
                                    p_queue = ''scanschedule'',
                                    p_routing_key = ''scanschedule'',
                                    p_exchange = '''',
                                    p_plan = plan,
                                    p_name = target @ '':'' @ plan,
                                    p_enabled = enabled,
                                    p_crontab = crontab\<rparr>
                        in (case find_one (sched_match target plan) (scanschedules d) of
                              None \<Rightarrow>
                                (Inr (Message message True),
                                 d\<lparr>scanschedules := scanschedules d @ [data],
                                   oplog := oplog d @ [Scanschedules_insert target plan]\<rparr>)
                            | Some schedule \<Rightarrow>
                                (Inr (Message message True),
                                 d\<lparr>scanschedules :=
                                     update_first (sched_match target plan)
                                       (\<lambda>s. s\<lparr>p_crontab := crontab, p_enabled := enabled\<rparr>)
                                       (scanschedules d),
                                   oplog := oplog d @ [Scanschedules_set target plan]\<rparr>))))"

text \<open>
  Modelled from the spec: celery's \<open>crontab_parser\<close> is a library and not part of the
  repository. The spec gives each field a range (\<open>min_\<close> to \<open>min_ + max_ - 1\<close>) and the
  union, range and step grammar: a comma-separated list of parts, each \<open>*\<close>, \<open>*/n\<close>, \<open>a\<close>,
  \<open>a-b\<close> or \<open>a-b/n\<close> with numbers \<open>a\<close> and \<open>b\<close> in the range and a step \<open>n\<close> above zero.
\<close>

fun split_on :: "char \<Rightarrow> string \<Rightarrow> string list" where
  "split_on c [] = [[]]"
| "split_on c (x # xs) =
     (case split_on c xs of
        [] \<Rightarrow> [[x]]
      | p # ps \<Rightarrow> if x = c then [] # p # ps else (x # p) # ps)"

definition is_digit :: "char \<Rightarrow> bool" where
  "is_digit c = (c \<in> set ''0123456789'')"

definition digit_val :: "char \<Rightarrow> nat" where
  "digit_val c = of_char c - 48"

definition read_nat :: "string \<Rightarrow> nat option" where
  "read_nat s = (if s \<noteq> [] \<and> list_all is_digit s
                 then Some (foldl (\<lambda>n c. 10 * n + digit_val c) 0 s) else None)"

definition cron_number :: "nat \<Rightarrow> nat \<Rightarrow> string \<Rightarrow> bool" where
  "cron_number mx mn s =
     (case read_nat s of None \<Rightarrow> False | Some n \<Rightarrow> mn \<le> n \<and> n + 1 \<le> mn + mx)"

definition cron_step :: "string \<Rightarrow> bool" where
  "cron_step s = (case read_nat s of None \<Rightarrow> False | Some n \<Rightarrow> 0 < n)"

definition cron_range :: "nat \<Rightarrow> nat \<Rightarrow> string \<Rightarrow> bool" where
  "cron_range mx mn s =
     (case split_on CHR ''-'' s of
        [a] \<Rightarrow> a = ''*'' \<or> cron_number mx mn a
      | [a, b] \<Rightarrow> cron_number mx mn a \<and> cron_number mx mn b
      | _ \<Rightarrow> False)"

definition cron_part :: "nat \<Rightarrow> nat \<Rightarrow> string \<Rightarrow> bool" where
  "cron_part mx mn s =
     (case split_on CHR ''/'' s of
        [r] \<Rightarrow> cron_range mx mn r
      | [r, n] \<Rightarrow> (r = ''*'' \<or> length (split_on CHR ''-'' r) = 2) \<and> cron_range mx mn r
                    \<and> cron_step n
      | _ \<Rightarrow> False)"

definition crontab_parser :: "nat \<Rightarrow> nat \<Rightarrow> string \<Rightarrow> bool" where
  "crontab_parser mx mn s = list_all (cron_part mx mn) (split_on CHR '','' s)"

text \<open>The fields of a periodic-task document that \<open>scanschedule\<close> sets only on insert.\<close>

definition fixed_fields ::
  "sched_doc \<Rightarrow> string \<times> string \<times> string list \<times> string \<times> string \<times> string \<times> string \<times> string \<times> string" where
  "fixed_fields s =
     (p_cls s, p_task s, p_args s, p_site s, p_queue s, p_routing_key s, p_exchange s,
      p_plan s, p_name s)"

definition ext_example :: ext where
  "ext_example = \<lparr>parses = crontab_parser, str_list = (\<lambda>xs. [])\<rparr>"

definition db_empty :: db where
  "db_empty = \<lparr>sites = [], groups = [], scanschedules = [], siteCredentials = [], oplog = []\<rparr>"

definition sched_req_example :: "pyval \<Rightarrow> sched_req" where
  "sched_req_example remove =
     \<lparr>sq_minute = PStr ''*/5'', sq_hour = PInt 5, sq_dayOfWeek = PStr ''*'',
      sq_dayOfMonth = PStr ''15'', sq_monthOfYear = PStr ''1,3,5'', sq_remove = remove\<rparr>"

definition scan_req_example :: "pyval \<Rightarrow> scan_req" where
  "scan_req_example remove =
     \<lparr>rq_scan_id = PNone, rq_schedule = Some (sched_req_example remove),
      rq_plan = Some ''basic'', rq_target = Some ''http://a.example''\<rparr>"



definition sched_doc_example :: sched_doc where
  "sched_doc_example =
     \<lparr>p_cls = ''PeriodicTask'', p_task = ''minion.backend.tasks.run_scheduled_scan'',
      p_args = [''http://a.example'', ''basic''], p_site = ''http://a.example'',
      p_queue = ''scanschedule'', p_routing_key = ''scanschedule'', p_exchange = '''',
      p_plan = ''basic'', p_name = ''http://a.example:basic'', p_enabled = True,
      p_crontab = \<lparr>minute = ''0'', hour = ''0'', day_of_week = ''*'', day_of_month = ''*'',
                    month_of_year = ''*''\<rparr>\<rparr>"

definition db_sched_example :: db where
  "db_sched_example = db_empty\<lparr>scanschedules := [sched_doc_example]\<rparr>"

section \<open>Regular expressions and the site URL check\<close>

text \<open>
  The pattern language \<open>_check_site_url\<close> uses: character classes (a list of ranges),
  sequence, alternation, repetition and the two anchors. The module is Python 2 and the
  pattern is compiled without \<open>re.UNICODE\<close>, so \<open>\d\<close> is \<open>[0-9]\<close>; a text is a string of
  8-bit characters.
\<close>

datatype re = Eps | Cls "(char \<times> char) list" | Seq re re | Alt re re | Star re | Bol | Eol

definition in_cls :: "char \<Rightarrow> (char \<times> char) list \<Rightarrow> bool" where
  "in_cls c rs = list_ex (\<lambda>(lo, hi). (of_char lo :: nat) \<le> of_char c \<and> (of_char c :: nat) \<le> of_char hi) rs"

text \<open>
  A backtracking matcher. A state is the number of characters consumed and the text that
  is left; \<open>ends r st\<close> lists the states in which a match of \<open>r\<close> that starts in \<open>st\<close> can
  end. \<open>^\<close> holds before the first character; \<open>$\<close> (no \<open>MULTILINE\<close>) holds at the end of
  the text and just before a newline that ends the text. An iteration of \<open>*\<close> that
  consumes nothing is not repeated.
\<close>

function ends :: "re \<Rightarrow> nat \<times> string \<Rightarrow> (nat \<times> string) list" where
  "ends Eps st = [st]"
| "ends (Cls rs) (k, s) =
     (case s of [] \<Rightarrow> [] | c # cs \<Rightarrow> if in_cls c rs then [(Suc k, cs)] else [])"
| "ends (Seq a b) st = concat (map (ends b) (ends a st))"
| "ends (Alt a b) st = ends a st @ ends b st"
| "ends (Star a) st =
     st # concat (map (ends (Star a))
             (filter (\<lambda>st'. length (snd st') < length (snd st)) (ends a st)))"
| "ends Bol (k, s) = (if k = 0 then [(k, s)] else [])"
| "ends Eol (k, s) = (if s = [] \<or> s = [CHR 0x0A] then [(k, s)] else [])"
  by pat_completeness auto
termination
  by (relation "inv_image (less_than <*lex*> less_than) (\<lambda>(r, st). (size r, length (snd st)))")
    auto

text \<open>\<open>regex.match(s) is not None\<close>: some match starts at the beginning of \<open>s\<close>.\<close>

definition re_match :: "re \<Rightarrow> string \<Rightarrow> bool" where
  "re_match r s = (ends r (0, s) \<noteq> [])"

text \<open>Notation of the pattern: a literal text, \<open>r+\<close>, \<open>r?\<close>, \<open>r{n}\<close>, and n-ary \<open>|\<close>.\<close>

definition chr :: "char \<Rightarrow> re" where
  "chr c = Cls [(c, c)]"

fun lit :: "string \<Rightarrow> re" where
  "lit [] = Eps"
| "lit (c # cs) = Seq (chr c) (lit cs)"

definition plus :: "re \<Rightarrow> re" where
  "plus r = Seq r (Star r)"

definition opt :: "re \<Rightarrow> re" where
  "opt r = Alt r Eps"

fun rep :: "nat \<Rightarrow> re \<Rightarrow> re" where
  "rep 0 r = Eps"
| "rep (Suc n) r = Seq r (rep n r)"

fun seqs :: "re list \<Rightarrow> re" where
  "seqs [] = Eps"
| "seqs [r] = r"
| "seqs (r # rs) = Seq r (seqs rs)"

fun alts :: "re list \<Rightarrow> re" where
  "alts [] = Eps"
| "alts [r] = r"
| "alts (r # rs) = Alt r (alts rs)"

definition digit :: re where
  "digit = Cls [(CHR ''0'', CHR ''9'')]"

text \<open>\<open>[a-z0-9][-a-z0-9]*\<close>\<close>

definition label :: re where
  "label = Seq (Cls [(CHR ''a'', CHR ''z''), (CHR ''0'', CHR ''9'')])
               (Star (Cls [(CHR ''-'', CHR ''-''), (CHR ''a'', CHR ''z''), (CHR ''0'', CHR ''9'')]))"

text \<open>\<open>(http|https)://(localhost|([a-z0-9][-a-z0-9]*)(\.[a-z0-9][-a-z0-9]*)+)(:\d+)?\<close>\<close>

definition url_re :: re where
  "url_re =
     seqs [alts [lit ''http'', lit ''https''], lit ''://'',
           alts [lit ''localhost'', Seq label (plus (Seq (chr CHR ''.'') label))],
           opt (Seq (chr CHR '':'') (plus digit))]"

text \<open>\<open>[0-9]|[1-9][0-9]|1[0-9]{2}|2[0-4][0-9]|25[0-5]\<close>\<close>

definition octet :: re where
  "octet =
     alts [Cls [(CHR ''0'', CHR ''9'')],
           Seq (Cls [(CHR ''1'', CHR ''9'')]) (Cls [(CHR ''0'', CHR ''9'')]),
           Seq (chr CHR ''1'') (rep 2 (Cls [(CHR ''0'', CHR ''9'')])),
           seqs [chr CHR ''2'', Cls [(CHR ''0'', CHR ''4'')], Cls [(CHR ''0'', CHR ''9'')]],
           Seq (lit ''25'') (Cls [(CHR ''0'', CHR ''5'')])]"

text \<open>\<open>\d|[1-2]\d|3[0-2]\<close>\<close>

definition mask :: re where
  "mask = alts [digit, Seq (Cls [(CHR ''1'', CHR ''2'')]) digit,
                Seq (chr CHR ''3'') (Cls [(CHR ''0'', CHR ''2'')])]"

text \<open>\<open>((octet)\.){3}(octet)(\/(mask))?\<close>\<close>

definition cidr_re :: re where
  "cidr_re = seqs [rep 3 (Seq octet (chr CHR ''.'')), octet, opt (Seq (chr CHR ''/'') mask)]"

text \<open>
  The compiled pattern is \<open>^(url)|(cidr)$\<close>: alternation binds weakest, so \<open>^\<close> belongs to
  the first branch only and \<open>$\<close> to the second only.
\<close>

definition site_url_regex :: re where
  "site_url_regex = Alt (Seq Bol url_re) (Seq cidr_re Eol)"

definition check_site_url :: "string \<Rightarrow> bool" where
  "check_site_url url = re_match site_url_regex url"

section \<open>Sites and groups\<close>

text \<open>\<open>_find_groups_for_site\<close>: the names of the groups whose \<open>sites\<close> array holds the URL.\<close>

definition find_groups_for_site :: "group_doc list \<Rightarrow> string \<Rightarrow> string list" where
  "find_groups_for_site gs site = map g_name (filter (\<lambda>g. site \<in> set (g_sites g)) gs)"

text \<open>
  \<open>groups.update({'name': n}, {'$addToSet': {'sites': url}})\<close> and the same with
  \<open>$pull\<close>: the first group of that name is changed, and the call is logged.
\<close>

definition addToSet :: "string \<Rightarrow> group_doc \<Rightarrow> group_doc" where
  "addToSet url g = (if url \<in> set (g_sites g) then g else g\<lparr>g_sites := g_sites g @ [url]\<rparr>)"

definition pull :: "string \<Rightarrow> group_doc \<Rightarrow> group_doc" where
  "pull url g = g\<lparr>g_sites := removeAll url (g_sites g)\<rparr>"

definition groups_addToSet :: "string \<Rightarrow> string \<Rightarrow> db \<Rightarrow> db" where
  "groups_addToSet group_name url d =
     d\<lparr>groups := update_first (\<lambda>g. g_name g = group_name) (addToSet url) (groups d),
       oplog := oplog d @ [Groups_addToSet group_name url]\<rparr>"

definition groups_pull :: "string \<Rightarrow> string \<Rightarrow> db \<Rightarrow> db" where
  "groups_pull group_name url d =
     d\<lparr>groups := update_first (\<lambda>g. g_name g = group_name) (pull url) (groups d),
       oplog := oplog d @ [Groups_pull group_name url]\<rparr>"

text \<open>
  Modelled from the spec: \<open>_check_group_exists\<close> lives in
  \<open>minion/backend/views/groups.py\<close>, which is not among the sources. The spec has a group
  exist when the groups collection holds a group of that name.
\<close>

definition check_group_exists :: "db \<Rightarrow> string \<Rightarrow> bool" where
  "check_group_exists d group_name = (find_one (\<lambda>g. g_name g = group_name) (groups d) \<noteq> None)"

text \<open>
  What the site handlers take from outside: whether a plan exists
  (\<open>_check_plan_exists\<close>, backed by the plan store), the values \<open>uuid.uuid4()\<close> returns
  during the request, in order, and the clock.
\<close>

record site_ext =
  check_plan_exists :: "string \<Rightarrow> bool"
  uuid4 :: "nat \<Rightarrow> string"
  utcnow :: nat

text \<open>
  The JSON body of \<open>POST /sites\<close> and \<open>POST /sites/<id>\<close>. \<open>None\<close> is a missing key;
  \<open>vr_enabled\<close> is the \<open>enabled\<close> key of the \<open>verification\<close> object.
\<close>

record verification_req =
  vr_enabled :: "bool option"

record site_req =
  sr_url :: "string option"
  sr_plans :: "string list option"
  sr_groups :: "string list option"
  sr_verification :: "verification_req option"

text \<open>\<open>d.get(k, [])\<close> for a list-valued key.\<close>

definition get_list :: "string list option \<Rightarrow> string list" where
  "get_list v = (case v of None \<Rightarrow> [] | Some xs \<Rightarrow> xs)"

text \<open>
  \<open>_check_required_fields(expected, fields)\<close>, as the copy kept in a comment of
  \<open>sites.py\<close> defines it; \<open>site_keys\<close> lists the keys of the body.
\<close>

definition check_required_fields :: "string list \<Rightarrow> string list \<Rightarrow> bool" where
  "check_required_fields expected fs = list_all (\<lambda>field. field \<in> set expected) fs"

definition site_keys :: "site_req \<Rightarrow> string list" where
  "site_keys site =
     (if sr_url site = None then [] else [''url'']) @
     (if sr_plans site = None then [] else [''plans'']) @
     (if sr_groups site = None then [] else [''groups'']) @
     (if sr_verification site = None then [] else [''verification''])"

text \<open>The loop of \<open>create_site\<close> that adds the new site to every requested group.\<close>

fun add_to_groups :: "string \<Rightarrow> string list \<Rightarrow> db \<Rightarrow> db" where
  "add_to_groups url [] d = d"
| "add_to_groups url (group_name # rest) d = add_to_groups url rest (groups_addToSet group_name url d)"

definition create_site :: "site_ext \<Rightarrow> db \<Rightarrow> site_req \<Rightarrow> (exn + response) \<times> db" where
  "create_site e d site =
     (case sr_url site of
        None \<Rightarrow> (Inl TypeError, d)
      | Some url \<Rightarrow>
          if \<not> check_site_url url then (Inr (Reason ''invalid-url''), d)
          else if \<not> check_required_fields (site_keys site) [''url''] then
            (Inr (Reason ''missing-required-field''), d)
          else if \<not> list_all (check_group_exists d) (get_list (sr_groups site)) then
            (Inr (Reason ''unknown-group''), d)
          else if \<not> list_all (check_plan_exists e) (get_list (sr_plans site)) then
            (Inr (Reason ''unknown-plan''), d)
          else if find_one (\<lambda>s. s_url s = url) (sites d) \<noteq> None then
            (Inr (Reason ''site-already-exists''), d)
          else
            let requested = (case sr_verification site of
                               None \<Rightarrow> False
                             | Some v \<Rightarrow> (case vr_enabled v of None \<Rightarrow> False | Some b \<Rightarrow> b));
                new_site = \<lparr>s_id = uuid4 e 0, s_url = url,
                            s_plans = get_list (sr_plans site), s_created = utcnow e,
                            s_verification =
                              (if requested
                               then Some \<lparr>v_enabled = True, v_value = Some (uuid4 e 1)\<rparr>
                               else Some \<lparr>v_enabled = False, v_value = None\<rparr>)\<rparr>;
                d1 = d\<lparr>sites := sites d @ [new_site],
                       oplog := oplog d @ [Sites_insert (uuid4 e 0)]\<rparr>;
                d2 = add_to_groups url (get_list (sr_groups site)) d1
            in (Inr (Site_response \<lparr>sv_site = new_site, sv_groups = get_list (sr_groups site)\<rparr>),
                d2))"

text \<open>
  The two reconciliation loops of \<open>update_site\<close>. \<open>site_groups\<close> is \<open>site['groups']\<close>, the
  list derived before the loops; it is not read again while they run.
\<close>

fun add_new_groups :: "string \<Rightarrow> string list \<Rightarrow> string list \<Rightarrow> db \<Rightarrow> db" where
  "add_new_groups url site_groups [] d = d"
| "add_new_groups url site_groups (group_name # rest) d =
     add_new_groups url site_groups rest
       (if group_name \<notin> set site_groups then groups_addToSet group_name url d else d)"

fun remove_old_groups :: "string \<Rightarrow> string list \<Rightarrow> string list \<Rightarrow> db \<Rightarrow> db" where
  "remove_old_groups url new_groups [] d = d"
| "remove_old_groups url new_groups (group_name # rest) d =
     remove_old_groups url new_groups rest
       (if group_name \<notin> set new_groups then groups_pull group_name url d else d)"

text \<open>The block under \<open>if 'groups' in new_site\<close>.\<close>

definition reconcile_groups :: "string \<Rightarrow> string list \<Rightarrow> string list option \<Rightarrow> db \<Rightarrow> db" where
  "reconcile_groups url site_groups requested d =
     (case requested of
        None \<Rightarrow> d
      | Some new_groups \<Rightarrow>
          remove_old_groups url new_groups site_groups
            (add_new_groups url site_groups new_groups d))"

text \<open>The block under \<open>if 'plans' in new_site\<close>.\<close>

definition set_plans :: "string \<Rightarrow> string list option \<Rightarrow> db \<Rightarrow> db" where
  "set_plans site_id requested d =
     (case requested of
        None \<Rightarrow> d
      | Some plans \<Rightarrow>
          d\<lparr>sites := update_first (\<lambda>s. s_id s = site_id) (\<lambda>s. s\<lparr>s_plans := plans\<rparr>) (sites d),
            oplog := oplog d @ [Sites_set_plans site_id]\<rparr>)"

text \<open>
  The verification block: \<open>not old_verification\<close> holds for a document without the
  field; otherwise the stored flag is compared with the requested one.
\<close>

definition set_verification ::
  "site_ext \<Rightarrow> string \<Rightarrow> verification option \<Rightarrow> bool \<Rightarrow> db \<Rightarrow> db" where
  "set_verification e site_id old_verification new_enabled d =
     (if old_verification = None \<or> map_option v_enabled old_verification \<noteq> Some new_enabled
      then d\<lparr>sites := update_first (\<lambda>s. s_id s = site_id)
                        (\<lambda>s. s\<lparr>s_verification :=
                                 Some \<lparr>v_enabled = new_enabled, v_value = Some (uuid4 e 0)\<rparr>\<rparr>)
                        (sites d),
             oplog := oplog d @ [Sites_set_verification site_id]\<rparr>
      else d)"

text \<open>The end of \<open>update_site\<close>: the site is read again and returned with its groups.\<close>

definition updated_site :: "string \<Rightarrow> db \<Rightarrow> response" where
  "updated_site site_id d =
     (case find_one (\<lambda>s. s_id s = site_id) (sites d) of
        None \<Rightarrow> Reason ''no-such-site''
      | Some site \<Rightarrow>
          Site_response \<lparr>sv_site = site, sv_groups = find_groups_for_site (groups d) (s_url site)\<rparr>)"

definition update_site ::
  "site_ext \<Rightarrow> db \<Rightarrow> string \<Rightarrow> site_req \<Rightarrow> (exn + response) \<times> db" where
  "update_site e d site_id new_site =
     (case find_one (\<lambda>s. s_id s = site_id) (sites d) of
        None \<Rightarrow> (Inr (Reason ''no-such-site''), d)
      | Some site \<Rightarrow>
          let site_groups = find_groups_for_site (groups d) (s_url site) in
          if \<not> list_all (check_group_exists d) (get_list (sr_groups new_site)) then
            (Inr (Reason ''unknown-group''), d)
          else if \<not> list_all (check_plan_exists e) (get_list (sr_plans new_site)) then
            (Inr (Reason ''unknown-plan''), d)
          else
            let d1 = reconcile_groups (s_url site) site_groups (sr_groups new_site) d;
                d2 = set_plans site_id (sr_plans new_site) d1
            in case sr_verification new_site of
                 None \<Rightarrow> (Inl KeyError, d2)
               | Some new_verification \<Rightarrow>
                   (case vr_enabled new_verification of
                      None \<Rightarrow> (Inl KeyError, d2)
                    | Some new_enabled \<Rightarrow>
                        let old_verification = s_verification site;
                            d3 = set_verification e site_id old_verification new_enabled d2
                        in (Inr (updated_site site_id d3), d3)))"

definition site_ext_example :: site_ext where
  "site_ext_example =
     \<lparr>check_plan_exists = (\<lambda>p. p = ''basic''),
      uuid4 = (\<lambda>n. if n = 0 then ''uuid-0'' else ''uuid-1''), utcnow = 0\<rparr>"

definition site_example :: site_doc where
  "site_example =
     \<lparr>s_id = ''s1'', s_url = ''http://a.example'', s_plans = [], s_created = 0,
      s_verification = Some \<lparr>v_enabled = False, v_value = None\<rparr>\<rparr>"

definition group_example :: "string \<Rightarrow> string list \<Rightarrow> group_doc" where
  "group_example n urls = \<lparr>g_name = n, g_description = '''', g_sites = urls\<rparr>"

definition db_site_example :: db where
  "db_site_example =
     db_empty\<lparr>sites := [site_example],
       groups := [group_example ''A'' [''http://a.example''],
                  group_example ''B'' [''http://a.example'', ''http://b.example''],
                  group_example ''C'' []]\<rparr>"

definition req_no_url :: site_req where
  "req_no_url = \<lparr>sr_url = None, sr_plans = Some [''basic''], sr_groups = None,
      sr_verification = None\<rparr>"

definition req_unknown_group :: site_req where
  "req_unknown_group = \<lparr>sr_url = None, sr_plans = None, sr_groups = Some [''nowhere''],
      sr_verification = None\<rparr>"

definition req_unknown_plan :: site_req where
  "req_unknown_plan = \<lparr>sr_url = None, sr_plans = Some [''basic'', ''nmap''], sr_groups = Some [''A''],
      sr_verification = None\<rparr>"

definition req_plans_only :: site_req where
  "req_plans_only = \<lparr>sr_url = None, sr_plans = Some [''basic''], sr_groups = None,
      sr_verification = None\<rparr>"

definition req_groups_BC :: site_req where
  "req_groups_BC = \<lparr>sr_url = None, sr_plans = None, sr_groups = Some [''B'', ''C''],
      sr_verification = Some \<lparr>vr_enabled = Some False\<rparr>\<rparr>"

definition req_verify :: "bool \<Rightarrow> site_req" where
  "req_verify b = \<lparr>sr_url = None, sr_plans = None, sr_groups = None,
      sr_verification = Some \<lparr>vr_enabled = Some b\<rparr>\<rparr>"

section \<open>The texts of a pattern\<close>

text \<open>
  The texts a pattern without anchors matches: the usual language of a regular expression.
  An anchor consumes nothing and holds or fails by position, so it has no texts of its own.
\<close>

inductive_set star :: "string set \<Rightarrow> string set" for A :: "string set" where
  star_nil: "[] \<in> star A"
| star_step: "p \<in> A \<Longrightarrow> q \<in> star A \<Longrightarrow> p @ q \<in> star A"

fun lang :: "re \<Rightarrow> string set" where
  "lang Eps = {[]}"
| "lang (Cls rs) = {[c] | c. in_cls c rs}"
| "lang (Seq a b) = {p @ q | p q. p \<in> lang a \<and> q \<in> lang b}"
| "lang (Alt a b) = lang a \<union> lang b"
| "lang (Star a) = star (lang a)"
| "lang Bol = {}"
| "lang Eol = {}"

fun anchor_free :: "re \<Rightarrow> bool" where
  "anchor_free Eps = True"
| "anchor_free (Cls rs) = True"
| "anchor_free (Seq a b) = (anchor_free a \<and> anchor_free b)"
| "anchor_free (Alt a b) = (anchor_free a \<and> anchor_free b)"
| "anchor_free (Star a) = anchor_free a"
| "anchor_free Bol = False"
| "anchor_free Eol = False"

definition dg :: "nat \<Rightarrow> char" where
  "dg k = ''0123456789'' ! k"

text \<open>
  The accepted grammar in words: a label is \<open>[a-z0-9]\<close> followed by any number of
  \<open>[-a-z0-9]\<close>; a host is \<open>localhost\<close> or at least two labels joined by dots; a port is
  empty or a colon and at least one digit. These sets are not a second model: they are
  shown to be the texts of the patterns \<open>url_re\<close> and \<open>cidr_re\<close> of the code
  (\<open>lang_url_re\<close>, \<open>lang_cidr_re\<close>).
\<close>

definition label_texts :: "string set" where
  "label_texts =
     {c # cs | c cs.
        in_cls c [(CHR ''a'', CHR ''z''), (CHR ''0'', CHR ''9'')]
        \<and> (\<forall>x \<in> set cs. in_cls x [(CHR ''-'', CHR ''-''), (CHR ''a'', CHR ''z''), (CHR ''0'', CHR ''9'')])}"

fun dotted :: "string list \<Rightarrow> string" where
  "dotted [] = []"
| "dotted [l] = l"
| "dotted (l # ls) = l @ CHR ''.'' # dotted ls"

definition host_texts :: "string set" where
  "host_texts = {''localhost''} \<union> {dotted ls | ls. 2 \<le> length ls \<and> set ls \<subseteq> label_texts}"

definition port_texts :: "string set" where
  "port_texts = {[]} \<union> {CHR '':'' # ds | ds. ds \<noteq> [] \<and> (\<forall>d \<in> set ds. is_digit d)}"

definition site_url_texts :: "string set" where
  "site_url_texts =
     {scheme @ ''://'' @ host @ port | scheme host port.
        scheme \<in> {''http'', ''https''} \<and> host \<in> host_texts \<and> port \<in> port_texts}"

text \<open>
  A bare address: four decimal numbers up to 255, as \<open>show_nat\<close> prints them, joined by
  dots, and an optional \<open>/n\<close> with \<open>n\<close> up to 32.
\<close>

definition mask_texts :: "string set" where
  "mask_texts = {[]} \<union> {CHR ''/'' # show_nat n | n. n \<le> 32}"

definition address_texts :: "string set" where
  "address_texts =
     {show_nat a @ ''.'' @ show_nat b @ ''.'' @ show_nat c @ ''.'' @ show_nat d @ m | a b c d m.
        a \<le> 255 \<and> b \<le> 255 \<and> c \<le> 255 \<and> d \<le> 255 \<and> m \<in> mask_texts}"

text \<open>
  The grammar as C1 words it, to be compared with the code: \<open>http(s)://\<close>, then
  \<open>localhost\<close>, a hostname of at least two labels or a dotted-quad address with an
  optional \<open>/0-32\<close>, then an optional \<open>:port\<close>, and nothing else.
\<close>

definition claimed_re :: re where
  "claimed_re =
     seqs [alts [lit ''http'', lit ''https''], lit ''://'',
           alts [lit ''localhost'', Seq label (plus (Seq (chr CHR ''.'') label)), cidr_re],
           opt (Seq (chr CHR '':'') (plus digit))]"

definition claimed_site_url :: "string \<Rightarrow> bool" where
  "claimed_site_url url = ((length url, []) \<in> set (ends claimed_re (0, url)))"

section \<open>The masked credential listing\<close>

lemma credInfo_loop_masked:
  assumes "\<And>s m p x. ci s = Some m \<Longrightarrow> m p = Some x \<Longrightarrow> c_authData x ''password'' = Some (PStr '''')"
    and "credInfo_loop cs ci s = Some m" and "m p = Some x"
  shows "c_authData x ''password'' = Some (PStr '''')"
  using assms
proof (induction cs arbitrary: ci)
  case Nil
  then show ?case by simp
next
  case (Cons c cs)
  let ?x = "\<lparr>c_site = c_site c, c_plan = c_plan c, c_authData = (c_authData c)(''password'' \<mapsto> PStr '''')\<rparr>"
  let ?m = "(case ci (c_site c) of None \<Rightarrow> Map.empty | Some m \<Rightarrow> m)(c_plan c \<mapsto> ?x)"
  let ?ci = "ci(c_site c \<mapsto> ?m)"
  show ?case
  proof (rule Cons.IH[OF _ _ Cons.prems(3)])
    show "credInfo_loop cs ?ci s = Some m"
      using Cons.prems(2) by (simp add: Let_def)
  next
    fix s' m' p' x'
    assume a: "?ci s' = Some m'" and b: "m' p' = Some x'"
    show "c_authData x' ''password'' = Some (PStr '''')"
      using a b Cons.prems(1) by (auto split: if_splits option.splits)
  qed
qed

lemma credInfo_loop_keeps:
  assumes "ci s = Some m" and "m p = Some x" and "c_site x = s" and "c_plan x = p"
  shows "\<exists>m' x'. credInfo_loop cs ci s = Some m' \<and> m' p = Some x' \<and> c_site x' = s \<and> c_plan x' = p"
  using assms
proof (induction cs arbitrary: ci m x)
  case Nil
  then show ?case by simp
next
  case (Cons c cs)
  let ?x = "\<lparr>c_site = c_site c, c_plan = c_plan c, c_authData = (c_authData c)(''password'' \<mapsto> PStr '''')\<rparr>"
  let ?m = "(case ci (c_site c) of None \<Rightarrow> Map.empty | Some m \<Rightarrow> m)(c_plan c \<mapsto> ?x)"
  let ?ci = "ci(c_site c \<mapsto> ?m)"
  have "\<exists>m1 x1. ?ci s = Some m1 \<and> m1 p = Some x1 \<and> c_site x1 = s \<and> c_plan x1 = p"
    using Cons.prems by (auto split: option.splits)
  then obtain m1 x1 where h: "?ci s = Some m1" "m1 p = Some x1" "c_site x1 = s" "c_plan x1 = p"
    by blast
  have "\<exists>m' x'. credInfo_loop cs ?ci s = Some m' \<and> m' p = Some x' \<and> c_site x' = s \<and> c_plan x' = p"
    using h by (rule Cons.IH[where ci = ?ci and m = m1 and x = x1])
  then show ?case by (simp add: Let_def)
qed

lemma credInfo_loop_covers:
  assumes "c \<in> set cs"
  shows "\<exists>m x. credInfo_loop cs ci (c_site c) = Some m \<and> m (c_plan c) = Some x \<and> c_site x = c_site c \<and> c_plan x = c_plan c"
  using assms
proof (induction cs arbitrary: ci)
  case Nil
  then show ?case by simp
next
  case (Cons a cs)
  show ?case
  proof (cases "c = a")
    case True
    let ?x = "\<lparr>c_site = c_site c, c_plan = c_plan c, c_authData = (c_authData c)(''password'' \<mapsto> PStr '''')\<rparr>"
    let ?m = "(case ci (c_site c) of None \<Rightarrow> Map.empty | Some m \<Rightarrow> m)(c_plan c \<mapsto> ?x)"
    let ?ci = "ci(c_site c \<mapsto> ?m)"
    have "\<exists>m' x'. credInfo_loop cs ?ci (c_site c) = Some m' \<and> m' (c_plan c) = Some x' \<and>
        c_site x' = c_site c \<and> c_plan x' = c_plan c"
      by (rule credInfo_loop_keeps[where m = ?m and x = ?x]) simp_all
    then show ?thesis using True by (simp add: Let_def)
  next
    case False
    then have "c \<in> set cs" using Cons.prems by simp
    from Cons.IH[OF this] show ?thesis by (simp add: Let_def)
  qed
qed

text \<open>
  C8: whatever the credential store holds, every record of the \<open>/credInfo\<close> listing has
  \<open>authData.password\<close> equal to the empty string; the handler returns the listing, leaves
  the store as it was, and lists an entry under the site and plan of every stored credential.
\<close>

theorem get_credInfo_masks_password:
  "\<exists>ci. get_credInfo d = (Inr (CredInfo ci), d)
     \<and> (\<forall>s m p x. ci s = Some m \<longrightarrow> m p = Some x \<longrightarrow> c_authData x ''password'' = Some (PStr ''''))
     \<and> (\<forall>c \<in> set (siteCredentials d). \<exists>m x. ci (c_site c) = Some m \<and> m (c_plan c) = Some x
            \<and> c_site x = c_site c \<and> c_plan x = c_plan c)"
proof -
  let ?ci = "credInfo_loop (siteCredentials d) Map.empty"
  have 1: "get_credInfo d = (Inr (CredInfo ?ci), d)" by (simp add: get_credInfo_def)
  have 2: "\<forall>s m p x. ?ci s = Some m \<longrightarrow> m p = Some x \<longrightarrow> c_authData x ''password'' = Some (PStr '''')"
    using credInfo_loop_masked[of Map.empty] by fastforce
  have 3: "\<forall>c \<in> set (siteCredentials d). \<exists>m x. ?ci (c_site c) = Some m \<and> m (c_plan c) = Some x
            \<and> c_site x = c_site c \<and> c_plan x = c_plan c"
    using credInfo_loop_covers by blast
  from 1 2 3 show ?thesis by blast
qed

theorem get_credInfo_masks_password_witness:
  "c_authData cred_example ''password'' = Some (PStr ''hunter2'')
   \<and> (\<exists>ci m x. get_credInfo db_creds_example = (Inr (CredInfo ci), db_creds_example)
        \<and> ci (Some ''http://a.example'') = Some m \<and> m (Some ''basic'') = Some x
        \<and> c_authData x ''password'' = Some (PStr ''''))"
proof -
  obtain ci where ci: "get_credInfo db_creds_example = (Inr (CredInfo ci), db_creds_example)"
    and masked: "\<forall>s m p x. ci s = Some m \<longrightarrow> m p = Some x \<longrightarrow> c_authData x ''password'' = Some (PStr '''')"
    and covers: "\<forall>c \<in> set (siteCredentials db_creds_example). \<exists>m x. ci (c_site c) = Some m \<and> m (c_plan c) = Some x
            \<and> c_site x = c_site c \<and> c_plan x = c_plan c"
    using get_credInfo_masks_password[of db_creds_example] by blast
  have "cred_example \<in> set (siteCredentials db_creds_example)"
    by (simp add: db_creds_example_def)
  with covers obtain m x where mx: "ci (c_site cred_example) = Some m" "m (c_plan cred_example) = Some x"
    by blast
  with masked have "c_authData x ''password'' = Some (PStr '''')" by blast
  moreover have "c_site cred_example = Some ''http://a.example''" "c_plan cred_example = Some ''basic''"
    by (simp_all add: cred_example_def)
  moreover have "c_authData cred_example ''password'' = Some (PStr ''hunter2'')"
    by (simp add: cred_example_def)
  ultimately show ?thesis using ci mx by auto
qed

section \<open>Credential updates and removal\<close>

lemma update_first_split:
  "find_one q ds = Some x \<Longrightarrow>
     \<exists>pre post. ds = pre @ x # post \<and> (\<forall>y \<in> set pre. \<not> q y) \<and> q x
        \<and> update_first q f ds = pre @ f x # post"
proof (induction ds)
  case Nil
  then show ?case by (simp add: find_one_def)
next
  case (Cons d ds)
  show ?case
  proof (cases "q d")
    case True
    then have "x = d" using Cons.prems by (simp add: find_one_def)
    then have "d # ds = [] @ x # ds \<and> (\<forall>y \<in> set []. \<not> q y) \<and> q x
        \<and> update_first q f (d # ds) = [] @ f x # ds"
      using True by simp
    then show ?thesis by blast
  next
    case False
    then have "find_one q ds = Some x" using Cons.prems by (simp add: find_one_def)
    from Cons.IH[OF this] obtain pre post where
      "ds = pre @ x # post" "\<forall>y \<in> set pre. \<not> q y" "q x" "update_first q f ds = pre @ f x # post"
      by blast
    then have "d # ds = (d # pre) @ x # post \<and> (\<forall>y \<in> set (d # pre). \<not> q y) \<and> q x
        \<and> update_first q f (d # ds) = (d # pre) @ f x # post"
      using False by simp
    then show ?thesis by blast
  qed
qed

lemma find_one_filter_not: "find_one q (filter (\<lambda>c. \<not> q c) ds) = None"
  by (simp add: find_one_def find_None_iff)

lemma set_authData_site: "c_site (set_authData kvs d) = c_site d"
  by (induction kvs d rule: set_authData.induct) simp_all

lemma set_authData_plan: "c_plan (set_authData kvs d) = c_plan d"
  by (induction kvs d rule: set_authData.induct) simp_all

lemma set_authData_append: "set_authData (xs @ ys) d = set_authData ys (set_authData xs d)"
  by (induction xs d rule: set_authData.induct) simp_all

lemma set_authData_map:
  "c_authData (set_authData (map (\<lambda>k. (k, f k)) ks) d) k
     = (if k \<in> set ks then Some (f k) else c_authData d k)"
  by (induction ks arbitrary: d) simp_all

lemma password_not_cred_field: "''password'' \<notin> set cred_fields"
  by (simp add: cred_fields_def)

text \<open>
  C7: on an existing \<open>(site, plan)\<close> credential and a request without a truthy
  \<open>authData.remove\<close>, the first matching document gets each of the eleven fields of
  \<open>cred_fields\<close> set to the request's value, its password replaced exactly when the
  request's password is truthy (non-empty) and kept otherwise, and nothing else changed;
  with a truthy \<open>authData.remove\<close> every matching document is deleted and success is
  reported, and the same request repeated on the resulting store reports success again.
\<close>

theorem setCredentials_update_and_remove:
  assumes "cr_authData req = Some authData"
  shows "(\<not> truthy (dict_get authData ''remove'') \<longrightarrow>
           (\<forall>old. find_one (cred_match (cr_site req) (cr_plan req)) (siteCredentials d) = Some old \<longrightarrow>
             (\<exists>pre post new.
                siteCredentials d = pre @ old # post
              \<and> (\<forall>y \<in> set pre. \<not> cred_match (cr_site req) (cr_plan req) y)
              \<and> setCredentials d req =
                  (Inr (Message ''Added Site Credentials'' True),
                   d\<lparr>siteCredentials := pre @ new # post,
                     oplog := oplog d @ [SiteCredentials_set (cr_site req) (cr_plan req)]\<rparr>)
              \<and> c_site new = c_site old \<and> c_plan new = c_plan old
              \<and> (\<forall>k \<in> set cred_fields. c_authData new k = Some (dict_get authData k))
              \<and> c_authData new ''password'' =
                  (if truthy (dict_get authData ''password'')
                   then Some (dict_get authData ''password'') else c_authData old ''password'')
              \<and> (\<forall>k. k \<notin> set cred_fields \<and> k \<noteq> ''password'' \<longrightarrow>
                    c_authData new k = c_authData old k))))
       \<and> (truthy (dict_get authData ''remove'') \<longrightarrow>
           (\<exists>r d' r2 d2.
                setCredentials d req = (Inr r, d') \<and> success r
              \<and> siteCredentials d' =
                  filter (\<lambda>c. \<not> cred_match (cr_site req) (cr_plan req) c) (siteCredentials d)
              \<and> find_one (cred_match (cr_site req) (cr_plan req)) (siteCredentials d') = None
              \<and> setCredentials d' req = (Inr r2, d2) \<and> success r2
              \<and> siteCredentials d2 = siteCredentials d'))"
proof (intro conjI impI allI)
  fix old
  let ?q = "cred_match (cr_site req) (cr_plan req)"
  let ?pw = "dict_get authData ''password''"
  let ?base = "map (\<lambda>k. (k, dict_get authData k)) cred_fields"
  let ?upd = "if truthy ?pw then ?base @ [(''password'', ?pw)] else ?base"
  assume nr: "\<not> truthy (dict_get authData ''remove'')"
    and f: "find_one ?q (siteCredentials d) = Some old"
  from update_first_split[OF f, of "set_authData ?upd"] obtain pre post where
    sp: "siteCredentials d = pre @ old # post" "\<forall>y \<in> set pre. \<not> ?q y"
      "update_first ?q (set_authData ?upd) (siteCredentials d) = pre @ set_authData ?upd old # post"
    by blast
  let ?new = "set_authData ?upd old"
  have run: "setCredentials d req =
      (Inr (Message ''Added Site Credentials'' True),
       d\<lparr>siteCredentials := pre @ ?new # post,
         oplog := oplog d @ [SiteCredentials_set (cr_site req) (cr_plan req)]\<rparr>)"
    using assms nr f sp(3) by (simp add: setCredentials_def Let_def)
  have fields: "\<forall>k \<in> set cred_fields. c_authData ?new k = Some (dict_get authData k)"
    using password_not_cred_field
    by (auto simp: set_authData_append set_authData_map)
  have pw: "c_authData ?new ''password'' =
      (if truthy ?pw then Some ?pw else c_authData old ''password'')"
    using password_not_cred_field
    by (simp add: set_authData_append set_authData_map)
  have others: "\<forall>k. k \<notin> set cred_fields \<and> k \<noteq> ''password'' \<longrightarrow> c_authData ?new k = c_authData old k"
    by (simp add: set_authData_append set_authData_map)
  have keys: "c_site ?new = c_site old" "c_plan ?new = c_plan old"
    by (simp_all only: set_authData_site set_authData_plan)
  from sp(1,2) run keys fields pw others
  show "\<exists>pre post new.
                siteCredentials d = pre @ old # post
              \<and> (\<forall>y \<in> set pre. \<not> cred_match (cr_site req) (cr_plan req) y)
              \<and> setCredentials d req =
                  (Inr (Message ''Added Site Credentials'' True),
                   d\<lparr>siteCredentials := pre @ new # post,
                     oplog := oplog d @ [SiteCredentials_set (cr_site req) (cr_plan req)]\<rparr>)
              \<and> c_site new = c_site old \<and> c_plan new = c_plan old
              \<and> (\<forall>k \<in> set cred_fields. c_authData new k = Some (dict_get authData k))
              \<and> c_authData new ''password'' =
                  (if truthy (dict_get authData ''password'')
                   then Some (dict_get authData ''password'') else c_authData old ''password'')
              \<and> (\<forall>k. k \<notin> set cred_fields \<and> k \<noteq> ''password'' \<longrightarrow>
                    c_authData new k = c_authData old k)"
    by blast
next
  let ?q = "cred_match (cr_site req) (cr_plan req)"
  assume r: "truthy (dict_get authData ''remove'')"
  let ?d' = "d\<lparr>siteCredentials := filter (\<lambda>c. \<not> ?q c) (siteCredentials d),
               oplog := oplog d @ [SiteCredentials_remove (cr_site req) (cr_plan req)]\<rparr>"
  let ?d2 = "?d'\<lparr>siteCredentials := filter (\<lambda>c. \<not> ?q c) (siteCredentials ?d'),
               oplog := oplog ?d' @ [SiteCredentials_remove (cr_site req) (cr_plan req)]\<rparr>"
  have 1: "setCredentials d req = (Inr (Message ''Removed Site Credentials'' True), ?d')"
    using assms r by (simp add: setCredentials_def Let_def)
  have 2: "setCredentials ?d' req = (Inr (Message ''Removed Site Credentials'' True), ?d2)"
    using assms r by (simp add: setCredentials_def Let_def)
  have 3: "find_one ?q (siteCredentials ?d') = None"
    by (simp add: find_one_filter_not)
  have 4: "siteCredentials ?d2 = siteCredentials ?d'" by simp
  have 5: "siteCredentials ?d' = filter (\<lambda>c. \<not> ?q c) (siteCredentials d)" by simp
  have 6: "success (Message ''Removed Site Credentials'' True)" by simp
  from 1 2 3 4 5 6
  show "\<exists>r d' r2 d2.
                setCredentials d req = (Inr r, d') \<and> success r
              \<and> siteCredentials d' =
                  filter (\<lambda>c. \<not> cred_match (cr_site req) (cr_plan req) c) (siteCredentials d)
              \<and> find_one (cred_match (cr_site req) (cr_plan req)) (siteCredentials d') = None
              \<and> setCredentials d' req = (Inr r2, d2) \<and> success r2
              \<and> siteCredentials d2 = siteCredentials d'"
    by blast
qed

theorem setCredentials_update_and_remove_witness:
  "(\<exists>new. siteCredentials (snd (setCredentials db_creds_example req_update_example)) = [new]
        \<and> c_authData new ''username'' = Some (PStr ''alice'')
        \<and> c_authData new ''password'' = Some (PStr ''hunter2''))
   \<and> siteCredentials (snd (setCredentials db_creds_example req_remove_example)) = []"
proof -
  let ?a1 = "[''username'' \<mapsto> PStr ''alice'', ''password'' \<mapsto> PStr '''']"
  let ?a2 = "[''remove'' \<mapsto> PBool True]"
  have a1: "cr_authData req_update_example = Some ?a1" by (simp add: req_update_example_def)
  have a2: "cr_authData req_remove_example = Some ?a2" by (simp add: req_remove_example_def)
  have nr: "\<not> truthy (dict_get ?a1 ''remove'')" by (simp add: dict_get_def)
  have r: "truthy (dict_get ?a2 ''remove'')" by (simp add: dict_get_def)
  have f: "find_one (cred_match (cr_site req_update_example) (cr_plan req_update_example))
             (siteCredentials db_creds_example) = Some cred_example"
    by (simp add: find_one_def cred_match_def req_update_example_def db_creds_example_def
        cred_example_def)
  from setCredentials_update_and_remove[OF a1, of db_creds_example] nr f
  obtain pre post new where
    sp: "siteCredentials db_creds_example = pre @ cred_example # post"
    and run: "setCredentials db_creds_example req_update_example =
        (Inr (Message ''Added Site Credentials'' True),
         db_creds_example\<lparr>siteCredentials := pre @ new # post,
           oplog := oplog db_creds_example @
             [SiteCredentials_set (cr_site req_update_example) (cr_plan req_update_example)]\<rparr>)"
    and fields: "\<forall>k \<in> set cred_fields. c_authData new k = Some (dict_get ?a1 k)"
    and pw: "c_authData new ''password'' =
        (if truthy (dict_get ?a1 ''password'')
         then Some (dict_get ?a1 ''password'') else c_authData cred_example ''password'')"
    by blast
  from sp have "pre = []" "post = []"
    by (simp_all add: db_creds_example_def Cons_eq_append_conv)
  with run have 1: "siteCredentials (snd (setCredentials db_creds_example req_update_example)) = [new]"
    by simp
  have "''username'' \<in> set cred_fields" by (simp add: cred_fields_def)
  with fields have 2: "c_authData new ''username'' = Some (PStr ''alice'')"
    by (auto simp: dict_get_def)
  from pw have 3: "c_authData new ''password'' = Some (PStr ''hunter2'')"
    by (simp add: dict_get_def cred_example_def)
  from setCredentials_update_and_remove[OF a2, of db_creds_example] r
  obtain r' d' where "setCredentials db_creds_example req_remove_example = (Inr r', d')"
    and "siteCredentials d' =
       filter (\<lambda>c. \<not> cred_match (cr_site req_remove_example) (cr_plan req_remove_example) c)
         (siteCredentials db_creds_example)"
    by blast
  then have 4: "siteCredentials (snd (setCredentials db_creds_example req_remove_example)) = []"
    by (simp add: cred_match_def req_remove_example_def db_creds_example_def cred_example_def)
  from 1 2 3 4 show ?thesis by blast
qed

section \<open>Scan schedules: validation, the enabled flag and the frame\<close>


lemma scanschedule_invalid:
  assumes "rq_schedule req = Some schedule" and "rq_target req = Some target"
    and "check_cron (parses e) (request_crontab e schedule) \<noteq> []"
  shows "scanschedule e d req =
      (Inr (Errors ''Error in crontab values'' (check_cron (parses e) (request_crontab e schedule))), d)"
  using assms by (simp add: scanschedule_def Let_def)

lemma scanschedule_valid_insert:
  assumes "rq_schedule req = Some schedule" and "rq_target req = Some target"
    and "rq_plan req = Some plan"
    and "check_cron (parses e) (request_crontab e schedule) = []"
    and "find_one (sched_match target plan) (scanschedules d) = None"
  shows "scanschedule e d req =
      (Inr (Message (if sq_remove schedule \<noteq> PNone then ''Removed Schedule for: '' @ target
                     else ''Scheduled Scan successfully set for site: '' @ target) True),
       d\<lparr>scanschedules := scanschedules d @
           [\<lparr>p_cls = ''PeriodicTask'', p_task = ''minion.backend.tasks.run_scheduled_scan'',
             p_args = [target, plan], p_site = target, p_queue = ''scanschedule'',
             p_routing_key = ''scanschedule'', p_exchange = '''', p_plan = plan,
             p_name = target @ '':'' @ plan, p_enabled = (sq_remove schedule = PNone),
             p_crontab = request_crontab e schedule\<rparr>],
         oplog := oplog d @ [Scanschedules_insert target plan]\<rparr>)"
  using assms by (simp add: scanschedule_def Let_def)

lemma scanschedule_valid_update:
  assumes "rq_schedule req = Some schedule" and "rq_target req = Some target"
    and "rq_plan req = Some plan"
    and "check_cron (parses e) (request_crontab e schedule) = []"
    and "find_one (sched_match target plan) (scanschedules d) = Some old"
  shows "scanschedule e d req =
      (Inr (Message (if sq_remove schedule \<noteq> PNone then ''Removed Schedule for: '' @ target
                     else ''Scheduled Scan successfully set for site: '' @ target) True),
       d\<lparr>scanschedules :=
           update_first (sched_match target plan)
             (\<lambda>s. s\<lparr>p_crontab := request_crontab e schedule,
                     p_enabled := (sq_remove schedule = PNone)\<rparr>) (scanschedules d),
         oplog := oplog d @ [Scanschedules_set target plan]\<rparr>)"
  using assms by (simp add: scanschedule_def Let_def)

lemma find_one_append_new:
  "find_one q ds = None \<Longrightarrow> q x \<Longrightarrow> find_one q (ds @ [x]) = Some x"
  by (induction ds) (auto simp: find_one_def split: if_splits)

lemma find_one_pre:
  "\<forall>y \<in> set pre. \<not> q y \<Longrightarrow> q x \<Longrightarrow> find_one q (pre @ x # post) = Some x"
  by (induction pre) (auto simp: find_one_def)



text \<open>
  C2 fails on the code: a request with \<open>"remove": false\<close> and valid crontab fields stores
  \<open>enabled = False\<close>. The handler tests \<open>removeSite is not None\<close>, where
  \<open>setCredentials\<close> in the same file tests its \<open>remove\<close> flag for truth.
\<close>

theorem scanschedule_remove_false_counterexample:
  "sq_remove (sched_req_example (PBool False)) = PBool False
   \<and> check_cron (parses ext_example) (request_crontab ext_example (sched_req_example (PBool False))) = []
   \<and> map p_enabled (scanschedules (snd (scanschedule ext_example db_empty
         (scan_req_example (PBool False))))) = [False]"
proof -
  have p: "parses ext_example = crontab_parser" by (simp add: ext_example_def)
  have c: "request_crontab ext_example (sched_req_example (PBool False)) =
      \<lparr>minute = ''*/5'', hour = ''5'', day_of_week = ''*'', day_of_month = ''15'',
       month_of_year = ''1,3,5''\<rparr>"
    by (simp add: request_crontab_def sched_req_example_def show_int_def)
  have m: "crontab_parser 60 0 ''*/5''" by code_simp
  have h: "crontab_parser 24 0 ''5''" by code_simp
  have w: "crontab_parser 7 0 ''*''" by code_simp
  have dm: "crontab_parser 31 1 ''15''" by code_simp
  have my: "crontab_parser 12 1 ''1,3,5''" by code_simp
  have v: "check_cron (parses ext_example) (request_crontab ext_example (sched_req_example (PBool False))) = []"
    using m h w dm my by (simp add: p c check_cron_def)
  have f: "find_one (sched_match ''http://a.example'' ''basic'') (scanschedules db_empty) = None"
    by (simp add: find_one_def db_empty_def)
  have "rq_schedule (scan_req_example (PBool False)) = Some (sched_req_example (PBool False))"
    "rq_target (scan_req_example (PBool False)) = Some ''http://a.example''"
    "rq_plan (scan_req_example (PBool False)) = Some ''basic''"
    by (simp_all add: scan_req_example_def)
  from scanschedule_valid_insert[OF this v f]
  have "map p_enabled (scanschedules (snd (scanschedule ext_example db_empty
         (scan_req_example (PBool False))))) = [False]"
    by (simp add: db_empty_def sched_req_example_def)
  with v show ?thesis by (simp add: sched_req_example_def)
qed

text \<open>
  C2, what the handler stores: for every request with a schedule object, a target and a
  plan whose crontab fields validate, the request succeeds and the schedule stored for
  \<open>(target, plan)\<close> afterwards has the crontab of the request, \<open>enabled = True\<close> when
  \<open>remove\<close> is absent or \<open>null\<close>, and \<open>enabled = False\<close> for every other value of
  \<open>remove\<close>: for \<open>true\<close> as the claim says, and for \<open>false\<close> against it.
\<close>

theorem scanschedule_enabled_flag:
  assumes "rq_schedule req = Some schedule" and "rq_target req = Some target"
    and "rq_plan req = Some plan"
    and "check_cron (parses e) (request_crontab e schedule) = []"
  shows "\<exists>r d' s. scanschedule e d req = (Inr r, d') \<and> success r
           \<and> find_one (sched_match target plan) (scanschedules d') = Some s
           \<and> p_enabled s = (sq_remove schedule = PNone)
           \<and> p_crontab s = request_crontab e schedule"
proof (cases "find_one (sched_match target plan) (scanschedules d)")
  case None
  let ?new = "\<lparr>p_cls = ''PeriodicTask'', p_task = ''minion.backend.tasks.run_scheduled_scan'',
             p_args = [target, plan], p_site = target, p_queue = ''scanschedule'',
             p_routing_key = ''scanschedule'', p_exchange = '''', p_plan = plan,
             p_name = target @ '':'' @ plan, p_enabled = (sq_remove schedule = PNone),
             p_crontab = request_crontab e schedule\<rparr>"
  have "find_one (sched_match target plan) (scanschedules d @ [?new]) = Some ?new"
    using None by (intro find_one_append_new) (simp_all add: sched_match_def)
  with scanschedule_valid_insert[OF assms None] show ?thesis by simp
next
  case (Some old)
  let ?f = "\<lambda>s. s\<lparr>p_crontab := request_crontab e schedule,
                     p_enabled := (sq_remove schedule = PNone)\<rparr>"
  from update_first_split[OF Some, of ?f] obtain pre post where
    sp: "\<forall>y \<in> set pre. \<not> sched_match target plan y" "sched_match target plan old"
      "update_first (sched_match target plan) ?f (scanschedules d) = pre @ ?f old # post"
    by blast
  have "find_one (sched_match target plan) (pre @ ?f old # post) = Some (?f old)"
    using sp(1,2) by (intro find_one_pre) (simp_all add: sched_match_def)
  with scanschedule_valid_update[OF assms Some] sp(3) show ?thesis by simp
qed

theorem scanschedule_enabled_flag_witness:
  "(\<exists>r d' s. scanschedule ext_example db_sched_example (scan_req_example (PBool True)) = (Inr r, d')
      \<and> success r
      \<and> find_one (sched_match ''http://a.example'' ''basic'') (scanschedules d') = Some s
      \<and> p_enabled s = False)
   \<and> (\<exists>r d' s. scanschedule ext_example db_sched_example (scan_req_example PNone) = (Inr r, d')
      \<and> success r
      \<and> find_one (sched_match ''http://a.example'' ''basic'') (scanschedules d') = Some s
      \<and> p_enabled s = True)"
proof -
  have p: "parses ext_example = crontab_parser" by (simp add: ext_example_def)
  have c: "\<And>rm. request_crontab ext_example (sched_req_example rm) =
      \<lparr>minute = ''*/5'', hour = ''5'', day_of_week = ''*'', day_of_month = ''15'',
       month_of_year = ''1,3,5''\<rparr>"
    by (simp add: request_crontab_def sched_req_example_def show_int_def)
  have m: "crontab_parser 60 0 ''*/5''" by code_simp
  have h: "crontab_parser 24 0 ''5''" by code_simp
  have w: "crontab_parser 7 0 ''*''" by code_simp
  have dm: "crontab_parser 31 1 ''15''" by code_simp
  have my: "crontab_parser 12 1 ''1,3,5''" by code_simp
  have v: "\<And>rm. check_cron (parses ext_example) (request_crontab ext_example (sched_req_example rm)) = []"
    using m h w dm my by (simp add: p c check_cron_def)
  have r: "\<And>rm. rq_schedule (scan_req_example rm) = Some (sched_req_example rm)"
    "\<And>rm. rq_target (scan_req_example rm) = Some ''http://a.example''"
    "\<And>rm. rq_plan (scan_req_example rm) = Some ''basic''"
    by (simp_all add: scan_req_example_def)
  have rm: "\<And>rm. sq_remove (sched_req_example rm) = rm" by (simp add: sched_req_example_def)
  from scanschedule_enabled_flag[OF r[of "PBool True"] v[of "PBool True"], where d = db_sched_example]
    scanschedule_enabled_flag[OF r[of PNone] v[of PNone], where d = db_sched_example]
  show ?thesis unfolding rm by auto
qed

text \<open>
  C6: whatever the request and its outcome, the documents stored before it are all still
  there afterwards, in place, with the same task, arguments, site, queue, routing key,
  exchange, plan and name; and a successful request on a \<open>(site, plan)\<close> key that has a
  document changes the \<open>crontab\<close> and \<open>enabled\<close> fields of the first such document and
  nothing else in the collection.
\<close>

theorem scanschedule_frame:
  "(\<exists>rest. map fixed_fields (scanschedules (snd (scanschedule e d req)))
             = map fixed_fields (scanschedules d) @ rest)
   \<and> (\<forall>target plan old r d'.
        rq_target req = Some target \<and> rq_plan req = Some plan
        \<and> find_one (sched_match target plan) (scanschedules d) = Some old
        \<and> scanschedule e d req = (Inr r, d') \<and> success r \<longrightarrow>
          (\<exists>pre post ct en.
              scanschedules d = pre @ old # post
            \<and> (\<forall>y \<in> set pre. \<not> sched_match target plan y)
            \<and> d' = d\<lparr>scanschedules := pre @ old\<lparr>p_crontab := ct, p_enabled := en\<rparr> # post,
                     oplog := oplog d @ [Scanschedules_set target plan]\<rparr>))"
proof (intro conjI allI impI)
  show "\<exists>rest. map fixed_fields (scanschedules (snd (scanschedule e d req)))
             = map fixed_fields (scanschedules d) @ rest"
  proof -
    have uf: "\<And>q ct en ds. map fixed_fields
        (update_first q (\<lambda>s. s\<lparr>p_crontab := ct, p_enabled := en\<rparr>) ds) = map fixed_fields ds"
    proof -
      fix q ct en and ds :: "sched_doc list"
      show "map fixed_fields
        (update_first q (\<lambda>s. s\<lparr>p_crontab := ct, p_enabled := en\<rparr>) ds) = map fixed_fields ds"
        by (induction ds) (simp_all add: fixed_fields_def)
    qed
    show ?thesis
      by (auto simp: scanschedule_def Let_def uf split: option.splits)
  qed
next
  fix target plan old r d'
  assume a: "rq_target req = Some target \<and> rq_plan req = Some plan
        \<and> find_one (sched_match target plan) (scanschedules d) = Some old
        \<and> scanschedule e d req = (Inr r, d') \<and> success r"
  then obtain schedule where s: "rq_schedule req = Some schedule"
    by (cases "rq_schedule req") (auto simp: scanschedule_def)
  have v: "check_cron (parses e) (request_crontab e schedule) = []"
  proof (rule ccontr)
    assume "check_cron (parses e) (request_crontab e schedule) \<noteq> []"
    from scanschedule_invalid[OF s _ this, of target d] a show False by auto
  qed
  let ?ct = "request_crontab e schedule" and ?en = "sq_remove schedule = PNone"
  let ?f = "\<lambda>s. s\<lparr>p_crontab := ?ct, p_enabled := ?en\<rparr>"
  from a have f: "find_one (sched_match target plan) (scanschedules d) = Some old" by simp
  from update_first_split[OF f, of ?f] obtain pre post where
    sp: "scanschedules d = pre @ old # post" "\<forall>y \<in> set pre. \<not> sched_match target plan y"
      "update_first (sched_match target plan) ?f (scanschedules d) = pre @ ?f old # post"
    by blast
  from a have t: "rq_target req = Some target" and p: "rq_plan req = Some plan" by simp_all
  from scanschedule_valid_update[OF s t p v f] a sp(3)
  have "d' = d\<lparr>scanschedules := pre @ old\<lparr>p_crontab := ?ct, p_enabled := ?en\<rparr> # post,
                     oplog := oplog d @ [Scanschedules_set target plan]\<rparr>"
    by simp
  with sp(1,2)
  show "\<exists>pre post ct en.
              scanschedules d = pre @ old # post
            \<and> (\<forall>y \<in> set pre. \<not> sched_match target plan y)
            \<and> d' = d\<lparr>scanschedules := pre @ old\<lparr>p_crontab := ct, p_enabled := en\<rparr> # post,
                     oplog := oplog d @ [Scanschedules_set target plan]\<rparr>"
    by blast
qed

theorem scanschedule_frame_witness:
  "scanschedules (snd (scanschedule ext_example db_sched_example (scan_req_example (PBool True))))
     = [sched_doc_example\<lparr>p_crontab := \<lparr>minute = ''*/5'', hour = ''5'', day_of_week = ''*'',
           day_of_month = ''15'', month_of_year = ''1,3,5''\<rparr>, p_enabled := False\<rparr>]"
proof -
  have p: "parses ext_example = crontab_parser" by (simp add: ext_example_def)
  have c: "request_crontab ext_example (sched_req_example (PBool True)) =
      \<lparr>minute = ''*/5'', hour = ''5'', day_of_week = ''*'', day_of_month = ''15'',
       month_of_year = ''1,3,5''\<rparr>"
    by (simp add: request_crontab_def sched_req_example_def show_int_def)
  have m: "crontab_parser 60 0 ''*/5''" by code_simp
  have h: "crontab_parser 24 0 ''5''" by code_simp
  have w: "crontab_parser 7 0 ''*''" by code_simp
  have dm: "crontab_parser 31 1 ''15''" by code_simp
  have my: "crontab_parser 12 1 ''1,3,5''" by code_simp
  have v: "check_cron (parses ext_example) (request_crontab ext_example (sched_req_example (PBool True))) = []"
    using m h w dm my by (simp add: p c check_cron_def)
  have f: "find_one (sched_match ''http://a.example'' ''basic'') (scanschedules db_sched_example)
      = Some sched_doc_example"
    by (simp add: find_one_def db_sched_example_def db_empty_def sched_match_def sched_doc_example_def)
  have r: "rq_schedule (scan_req_example (PBool True)) = Some (sched_req_example (PBool True))"
    "rq_target (scan_req_example (PBool True)) = Some ''http://a.example''"
    "rq_plan (scan_req_example (PBool True)) = Some ''basic''"
    by (simp_all add: scan_req_example_def)
  have rm: "sq_remove (sched_req_example (PBool True)) = PBool True"
    by (simp add: sched_req_example_def)
  let ?res = "scanschedule ext_example db_sched_example (scan_req_example (PBool True))"
  from scanschedule_valid_update[OF r v f]
  obtain msg where run: "?res = (Inr (Message msg True), snd ?res)" by simp
  have "success (Message msg True)" by simp
  with scanschedule_frame[of ext_example db_sched_example "scan_req_example (PBool True)"] r f run
  obtain pre post ct en where
    sp: "scanschedules db_sched_example = pre @ sched_doc_example # post"
    and d': "snd ?res = db_sched_example\<lparr>scanschedules :=
          pre @ sched_doc_example\<lparr>p_crontab := ct, p_enabled := en\<rparr> # post,
        oplog := oplog db_sched_example @ [Scanschedules_set ''http://a.example'' ''basic'']\<rparr>"
    by blast
  from sp have e: "pre = []" "post = []"
    by (simp_all add: db_sched_example_def db_empty_def Cons_eq_append_conv)
  from scanschedule_valid_update[OF r v f]
  have "scanschedules (snd ?res) = [sched_doc_example\<lparr>p_crontab := \<lparr>minute = ''*/5'', hour = ''5'',
      day_of_week = ''*'', day_of_month = ''15'', month_of_year = ''1,3,5''\<rparr>, p_enabled := False\<rparr>]"
    by (simp add: c rm db_sched_example_def db_empty_def sched_match_def sched_doc_example_def)
  with d' e show ?thesis by simp
qed

section \<open>Creating and updating sites\<close>

text \<open>
  C3 fails on the code: with no \<open>url\<close> in the body, \<open>_check_site_url(None)\<close> raises
  \<open>TypeError\<close> before \<open>_check_required_fields\<close> is reached, so the handler never answers
  \<open>missing-required-field\<close>, for no request at all. Nothing is stored.
\<close>

theorem create_site_missing_url_raises:
  "create_site site_ext_example db_empty req_no_url = (Inl TypeError, db_empty)
   \<and> create_site e d (site\<lparr>sr_url := None\<rparr>) = (Inl TypeError, d)
   \<and> fst (create_site e d site) \<noteq> Inr (Reason ''missing-required-field'')"
  by (auto simp: create_site_def req_no_url_def check_required_fields_def site_keys_def Let_def
      split: option.splits)

lemma update_site_invalid_group:
  assumes "find_one (\<lambda>s. s_id s = site_id) (sites d) = Some site"
    and "\<not> list_all (check_group_exists d) (get_list (sr_groups new_site))"
  shows "update_site e d site_id new_site = (Inr (Reason ''unknown-group''), d)"
  using assms by (simp add: update_site_def Let_def)

text \<open>
  C10 as stated fails: a body without \<open>verification\<close> that names a group that does not
  exist is answered with the structured \<open>unknown-group\<close> response, not with an exception.
\<close>

theorem update_site_unknown_group_counterexample:
  "sr_verification req_unknown_group = None
   \<and> find_one (\<lambda>s. s_id s = ''s1'') (sites db_site_example) = Some site_example
   \<and> update_site site_ext_example db_site_example ''s1'' req_unknown_group
       = (Inr (Reason ''unknown-group''), db_site_example)"
proof -
  have f: "find_one (\<lambda>s. s_id s = ''s1'') (sites db_site_example) = Some site_example"
    by (simp add: find_one_def db_site_example_def db_empty_def site_example_def)
  have g: "\<not> list_all (check_group_exists db_site_example) (get_list (sr_groups req_unknown_group))"
    by (simp add: check_group_exists_def find_one_def db_site_example_def db_empty_def
        group_example_def get_list_def req_unknown_group_def)
  from update_site_invalid_group[OF f g] f show ?thesis
    by (simp add: req_unknown_group_def)
qed

text \<open>
  C10, amended: for an existing site and a body without the \<open>verification\<close> key,
  \<open>update_site\<close> answers \<open>unknown-group\<close> when the body names a group that does not exist,
  \<open>unknown-plan\<close> when its groups exist and it names a plan that does not, both without
  writing anything, and raises \<open>KeyError\<close> in every other case, whether or not the body
  carries \<open>groups\<close> or \<open>plans\<close>; by then the group and plan writes of the request are
  done.
\<close>

theorem update_site_requires_verification:
  assumes "find_one (\<lambda>s. s_id s = site_id) (sites d) = Some site"
    and "sr_verification new_site = None"
  shows "(\<not> list_all (check_group_exists d) (get_list (sr_groups new_site)) \<longrightarrow>
            update_site e d site_id new_site = (Inr (Reason ''unknown-group''), d))
       \<and> (list_all (check_group_exists d) (get_list (sr_groups new_site))
            \<and> \<not> list_all (check_plan_exists e) (get_list (sr_plans new_site)) \<longrightarrow>
            update_site e d site_id new_site = (Inr (Reason ''unknown-plan''), d))
       \<and> (list_all (check_group_exists d) (get_list (sr_groups new_site))
            \<and> list_all (check_plan_exists e) (get_list (sr_plans new_site)) \<longrightarrow>
            update_site e d site_id new_site =
              (Inl KeyError,
               set_plans site_id (sr_plans new_site)
                 (reconcile_groups (s_url site) (find_groups_for_site (groups d) (s_url site))
                    (sr_groups new_site) d)))"
  using assms by (simp add: update_site_def Let_def)

theorem update_site_requires_verification_witness:
  "update_site site_ext_example db_site_example ''s1'' req_unknown_group
     = (Inr (Reason ''unknown-group''), db_site_example)
   \<and> update_site site_ext_example db_site_example ''s1'' req_unknown_plan
     = (Inr (Reason ''unknown-plan''), db_site_example)
   \<and> fst (update_site site_ext_example db_site_example ''s1'' req_plans_only) = Inl KeyError
   \<and> sites (snd (update_site site_ext_example db_site_example ''s1'' req_plans_only))
     = [site_example\<lparr>s_plans := [''basic'']\<rparr>]"
proof -
  have f: "find_one (\<lambda>s. s_id s = ''s1'') (sites db_site_example) = Some site_example"
    by (simp add: find_one_def db_site_example_def db_empty_def site_example_def)
  have g1: "\<not> list_all (check_group_exists db_site_example) (get_list (sr_groups req_unknown_group))"
    by (simp add: check_group_exists_def find_one_def db_site_example_def db_empty_def
        group_example_def get_list_def req_unknown_group_def)
  have g2: "list_all (check_group_exists db_site_example) (get_list (sr_groups req_unknown_plan))"
    by (simp add: check_group_exists_def find_one_def db_site_example_def db_empty_def
        group_example_def get_list_def req_unknown_plan_def)
  have p2: "\<not> list_all (check_plan_exists site_ext_example) (get_list (sr_plans req_unknown_plan))"
    by (simp add: get_list_def req_unknown_plan_def site_ext_example_def)
  have g3: "list_all (check_group_exists db_site_example) (get_list (sr_groups req_plans_only))"
    by (simp add: get_list_def req_plans_only_def)
  have p3: "list_all (check_plan_exists site_ext_example) (get_list (sr_plans req_plans_only))"
    by (simp add: get_list_def req_plans_only_def site_ext_example_def)
  have v: "sr_verification req_unknown_group = None" "sr_verification req_unknown_plan = None"
    "sr_verification req_plans_only = None"
    by (simp_all add: req_unknown_group_def req_unknown_plan_def req_plans_only_def)
  have w: "sites (set_plans ''s1'' (sr_plans req_plans_only)
      (reconcile_groups (s_url site_example)
         (find_groups_for_site (groups db_site_example) (s_url site_example))
         (sr_groups req_plans_only) db_site_example))
      = [site_example\<lparr>s_plans := [''basic'']\<rparr>]"
    by (simp add: set_plans_def reconcile_groups_def req_plans_only_def db_site_example_def
        db_empty_def site_example_def)
  from update_site_requires_verification[OF f v(1), of site_ext_example] g1
  have a: "update_site site_ext_example db_site_example ''s1'' req_unknown_group
     = (Inr (Reason ''unknown-group''), db_site_example)"
    by blast
  from update_site_requires_verification[OF f v(2), of site_ext_example] g2 p2
  have b: "update_site site_ext_example db_site_example ''s1'' req_unknown_plan
     = (Inr (Reason ''unknown-plan''), db_site_example)"
    by blast
  from update_site_requires_verification[OF f v(3), of site_ext_example] g3 p3
  have c: "update_site site_ext_example db_site_example ''s1'' req_plans_only =
      (Inl KeyError, set_plans ''s1'' (sr_plans req_plans_only)
        (reconcile_groups (s_url site_example)
           (find_groups_for_site (groups db_site_example) (s_url site_example))
           (sr_groups req_plans_only) db_site_example))"
    by blast
  from a b c w show ?thesis by simp
qed

section \<open>Group reconciliation and verification in \<open>update_site\<close>\<close>

lemma update_first_distinct:
  "distinct (map key ds) \<Longrightarrow>
     update_first (\<lambda>d. key d = n) f ds = map (\<lambda>d. if key d = n then f d else d) ds"
proof (induction ds)
  case Nil
  then show ?case by simp
next
  case (Cons d ds)
  show ?case
  proof (cases "key d = n")
    case True
    then have "\<forall>x \<in> set ds. key x \<noteq> n" using Cons.prems by (auto simp: image_iff)
    then have "map (\<lambda>d. if key d = n then f d else d) ds = ds"
      by (induction ds) auto
    with True show ?thesis by simp
  next
    case False
    with Cons show ?thesis by simp
  qed
qed

lemma find_one_update_first:
  assumes "find_one q ds = Some x" and "q (f x)"
  shows "find_one q (update_first q f ds) = Some (f x)"
proof -
  from update_first_split[OF assms(1), of f] obtain pre post where
    "\<forall>y \<in> set pre. \<not> q y" "update_first q f ds = pre @ f x # post"
    by blast
  with assms(2) show ?thesis by (simp add: find_one_pre)
qed

lemma g_name_addToSet [simp]: "g_name (addToSet url g) = g_name g"
  by (simp add: addToSet_def)

lemma g_name_pull [simp]: "g_name (pull url g) = g_name g"
  by (simp add: pull_def)

lemma addToSet_idem [simp]: "addToSet url (addToSet url g) = addToSet url g"
  by (simp add: addToSet_def)

lemma pull_idem [simp]: "pull url (pull url g) = pull url g"
  by (simp add: pull_def)

lemma add_new_groups_sites [simp]: "sites (add_new_groups url sg gs d) = sites d"
  by (induction gs arbitrary: d) (simp_all add: groups_addToSet_def)

lemma remove_old_groups_sites [simp]: "sites (remove_old_groups url ng gs d) = sites d"
  by (induction gs arbitrary: d) (simp_all add: groups_pull_def)

lemma add_new_groups_oplog:
  "oplog (add_new_groups url sg gs d)
     = oplog d @ map (\<lambda>n. Groups_addToSet n url) (filter (\<lambda>n. n \<notin> set sg) gs)"
  by (induction gs arbitrary: d) (simp_all add: groups_addToSet_def)

lemma remove_old_groups_oplog:
  "oplog (remove_old_groups url ng gs d)
     = oplog d @ map (\<lambda>n. Groups_pull n url) (filter (\<lambda>n. n \<notin> set ng) gs)"
  by (induction gs arbitrary: d) (simp_all add: groups_pull_def)

lemma add_new_groups_groups:
  "distinct (map g_name (groups d)) \<Longrightarrow>
     groups (add_new_groups url sg gs d)
       = map (\<lambda>g. if g_name g \<in> set gs \<and> g_name g \<notin> set sg then addToSet url g else g) (groups d)"
proof (induction gs arbitrary: d)
  case Nil
  then show ?case by simp
next
  case (Cons n gs)
  show ?case
  proof (cases "n \<in> set sg")
    case True
    have "groups (add_new_groups url sg (n # gs) d) = groups (add_new_groups url sg gs d)"
      using True by simp
    also have "\<dots> = map (\<lambda>g. if g_name g \<in> set gs \<and> g_name g \<notin> set sg then addToSet url g else g) (groups d)"
      using Cons by simp
    also have "\<dots> = map (\<lambda>g. if g_name g \<in> set (n # gs) \<and> g_name g \<notin> set sg then addToSet url g else g) (groups d)"
      using True by (intro map_cong) auto
    finally show ?thesis .
  next
    case False
    let ?d1 = "groups_addToSet n url d"
    have g1: "groups ?d1 = map (\<lambda>g. if g_name g = n then addToSet url g else g) (groups d)"
      using Cons.prems by (simp add: groups_addToSet_def update_first_distinct)
    then have "map g_name (groups ?d1) = map g_name (groups d)"
      by (simp add: comp_def if_distrib cong: if_cong)
    with Cons.prems have dist: "distinct (map g_name (groups ?d1))" by simp
    have "groups (add_new_groups url sg (n # gs) d) = groups (add_new_groups url sg gs ?d1)"
      using False by simp
    also have "\<dots> = map (\<lambda>g. if g_name g \<in> set gs \<and> g_name g \<notin> set sg then addToSet url g else g) (groups ?d1)"
      using Cons.IH[OF dist] .
    also have "\<dots> = map (\<lambda>g. if g_name g \<in> set (n # gs) \<and> g_name g \<notin> set sg then addToSet url g else g) (groups d)"
      unfolding g1 map_map using False by (intro map_cong) auto
    finally show ?thesis .
  qed
qed

lemma remove_old_groups_groups:
  "distinct (map g_name (groups d)) \<Longrightarrow>
     groups (remove_old_groups url ng gs d)
       = map (\<lambda>g. if g_name g \<in> set gs \<and> g_name g \<notin> set ng then pull url g else g) (groups d)"
proof (induction gs arbitrary: d)
  case Nil
  then show ?case by simp
next
  case (Cons n gs)
  show ?case
  proof (cases "n \<in> set ng")
    case True
    have "groups (remove_old_groups url ng (n # gs) d) = groups (remove_old_groups url ng gs d)"
      using True by simp
    also have "\<dots> = map (\<lambda>g. if g_name g \<in> set gs \<and> g_name g \<notin> set ng then pull url g else g) (groups d)"
      using Cons by simp
    also have "\<dots> = map (\<lambda>g. if g_name g \<in> set (n # gs) \<and> g_name g \<notin> set ng then pull url g else g) (groups d)"
      using True by (intro map_cong) auto
    finally show ?thesis .
  next
    case False
    let ?d1 = "groups_pull n url d"
    have g1: "groups ?d1 = map (\<lambda>g. if g_name g = n then pull url g else g) (groups d)"
      using Cons.prems by (simp add: groups_pull_def update_first_distinct)
    then have "map g_name (groups ?d1) = map g_name (groups d)"
      by (simp add: comp_def if_distrib cong: if_cong)
    with Cons.prems have dist: "distinct (map g_name (groups ?d1))" by simp
    have "groups (remove_old_groups url ng (n # gs) d) = groups (remove_old_groups url ng gs ?d1)"
      using False by simp
    also have "\<dots> = map (\<lambda>g. if g_name g \<in> set gs \<and> g_name g \<notin> set ng then pull url g else g) (groups ?d1)"
      using Cons.IH[OF dist] .
    also have "\<dots> = map (\<lambda>g. if g_name g \<in> set (n # gs) \<and> g_name g \<notin> set ng then pull url g else g) (groups d)"
      unfolding g1 map_map using False by (intro map_cong) auto
    finally show ?thesis .
  qed
qed

lemma derived_iff:
  assumes "distinct (map g_name gs)" and "g \<in> set gs"
  shows "g_name g \<in> set (find_groups_for_site gs url) \<longleftrightarrow> url \<in> set (g_sites g)"
proof
  assume "g_name g \<in> set (find_groups_for_site gs url)"
  then obtain h where h: "h \<in> set gs" "url \<in> set (g_sites h)" "g_name h = g_name g"
    by (auto simp: find_groups_for_site_def)
  from assms h(1,3) have "h = g" by (meson distinct_map inj_onD)
  with h(2) show "url \<in> set (g_sites g)" by simp
next
  assume "url \<in> set (g_sites g)"
  with assms(2) show "g_name g \<in> set (find_groups_for_site gs url)"
    by (auto simp: find_groups_for_site_def)
qed


lemma find_one_sat: "find_one q ds = Some x \<Longrightarrow> q x \<and> x \<in> set ds"
  by (auto simp: find_one_def find_Some_iff)

lemma check_group_exists_iff:
  "check_group_exists d n \<longleftrightarrow> n \<in> set (map g_name (groups d))"
  by (auto simp: check_group_exists_def find_one_def find_None_iff)

lemma reconcile_groups_sites [simp]: "sites (reconcile_groups url sg req d) = sites d"
  by (simp add: reconcile_groups_def split: option.splits)

lemma set_plans_groups [simp]: "groups (set_plans site_id req d) = groups d"
  by (simp add: set_plans_def split: option.splits)

lemma set_verification_groups [simp]: "groups (set_verification e site_id old b d) = groups d"
  by (simp add: set_verification_def)

lemma set_plans_find:
  assumes "find_one (\<lambda>s. s_id s = site_id) (sites d) = Some site"
  shows "find_one (\<lambda>s. s_id s = site_id) (sites (set_plans site_id req d))
     = Some (site\<lparr>s_plans := (case req of None \<Rightarrow> s_plans site | Some ps \<Rightarrow> ps)\<rparr>)"
proof (cases req)
  case None
  then show ?thesis using assms by (simp add: set_plans_def)
next
  case (Some ps)
  from find_one_sat[OF assms] have "s_id site = site_id" by simp
  then have "find_one (\<lambda>s. s_id s = site_id)
      (update_first (\<lambda>s. s_id s = site_id) (\<lambda>s. s\<lparr>s_plans := ps\<rparr>) (sites d))
      = Some (site\<lparr>s_plans := ps\<rparr>)"
    using assms by (intro find_one_update_first) simp_all
  then show ?thesis using Some by (simp add: set_plans_def)
qed

lemma set_verification_find:
  assumes "find_one (\<lambda>s. s_id s = site_id) (sites d) = Some site"
  shows "find_one (\<lambda>s. s_id s = site_id) (sites (set_verification e site_id old b d))
     = Some (site\<lparr>s_verification :=
          (if old = None \<or> map_option v_enabled old \<noteq> Some b
           then Some \<lparr>v_enabled = b, v_value = Some (uuid4 e 0)\<rparr>
           else s_verification site)\<rparr>)"
proof (cases "old = None \<or> map_option v_enabled old \<noteq> Some b")
  case True
  from find_one_sat[OF assms] have "s_id site = site_id" by simp
  then have "find_one (\<lambda>s. s_id s = site_id)
      (update_first (\<lambda>s. s_id s = site_id)
         (\<lambda>s. s\<lparr>s_verification := Some \<lparr>v_enabled = b, v_value = Some (uuid4 e 0)\<rparr>\<rparr>) (sites d))
      = Some (site\<lparr>s_verification := Some \<lparr>v_enabled = b, v_value = Some (uuid4 e 0)\<rparr>\<rparr>)"
    using assms by (intro find_one_update_first) simp_all
  moreover have "set_verification e site_id old b d =
      d\<lparr>sites := update_first (\<lambda>s. s_id s = site_id)
                        (\<lambda>s. s\<lparr>s_verification :=
                                 Some \<lparr>v_enabled = b, v_value = Some (uuid4 e 0)\<rparr>\<rparr>)
                        (sites d),
             oplog := oplog d @ [Sites_set_verification site_id]\<rparr>"
    unfolding set_verification_def using True by (rule if_P)
  moreover have "(if old = None \<or> map_option v_enabled old \<noteq> Some b
           then Some \<lparr>v_enabled = b, v_value = Some (uuid4 e 0)\<rparr>
           else s_verification site) = Some \<lparr>v_enabled = b, v_value = Some (uuid4 e 0)\<rparr>"
    using True by (rule if_P)
  ultimately show ?thesis by simp
next
  case False
  have 1: "set_verification e site_id old b d = d"
    unfolding set_verification_def using False by (rule if_not_P)
  have 2: "(if old = None \<or> map_option v_enabled old \<noteq> Some b
           then Some \<lparr>v_enabled = b, v_value = Some (uuid4 e 0)\<rparr>
           else s_verification site) = s_verification site"
    using False by (rule if_not_P)
  show ?thesis unfolding 1 2 using assms by simp
qed

lemma update_site_run:
  assumes f: "find_one (\<lambda>s. s_id s = site_id) (sites d) = Some site"
    and g: "list_all (check_group_exists d) (get_list (sr_groups new_site))"
    and p: "list_all (check_plan_exists e) (get_list (sr_plans new_site))"
    and v: "sr_verification new_site = Some nv" "vr_enabled nv = Some b"
  shows "update_site e d site_id new_site =
      (Inr (updated_site site_id
         (set_verification e site_id (s_verification site) b
           (set_plans site_id (sr_plans new_site)
             (reconcile_groups (s_url site) (find_groups_for_site (groups d) (s_url site))
                (sr_groups new_site) d)))),
       set_verification e site_id (s_verification site) b
         (set_plans site_id (sr_plans new_site)
           (reconcile_groups (s_url site) (find_groups_for_site (groups d) (s_url site))
              (sr_groups new_site) d)))"
  using assms by (simp add: update_site_def Let_def)

lemma update_site_success:
  assumes "update_site e d site_id new_site = (Inr r, d')" and "success r"
  shows "\<exists>site nv b. find_one (\<lambda>s. s_id s = site_id) (sites d) = Some site
      \<and> list_all (check_group_exists d) (get_list (sr_groups new_site))
      \<and> list_all (check_plan_exists e) (get_list (sr_plans new_site))
      \<and> sr_verification new_site = Some nv \<and> vr_enabled nv = Some b"
proof -
  obtain site where f: "find_one (\<lambda>s. s_id s = site_id) (sites d) = Some site"
    using assms by (cases "find_one (\<lambda>s. s_id s = site_id) (sites d)") (auto simp: update_site_def)
  have g: "list_all (check_group_exists d) (get_list (sr_groups new_site))"
    using assms f by (auto simp: update_site_def Let_def split: if_splits)
  have p: "list_all (check_plan_exists e) (get_list (sr_plans new_site))"
    using assms f g by (auto simp: update_site_def Let_def split: if_splits)
  obtain nv where v: "sr_verification new_site = Some nv"
    using assms f g p by (cases "sr_verification new_site") (auto simp: update_site_def Let_def)
  obtain b where b: "vr_enabled nv = Some b"
    using assms f g p v by (cases "vr_enabled nv") (auto simp: update_site_def Let_def)
  from f g p v b show ?thesis by blast
qed

lemma reconcile_groups_oplog:
  "oplog (reconcile_groups url sg req d) = oplog d @
     (case req of
        None \<Rightarrow> []
      | Some ng \<Rightarrow> map (\<lambda>n. Groups_addToSet n url) (filter (\<lambda>n. n \<notin> set sg) ng)
                    @ map (\<lambda>n. Groups_pull n url) (filter (\<lambda>n. n \<notin> set ng) sg))"
  by (simp add: reconcile_groups_def add_new_groups_oplog remove_old_groups_oplog
      split: option.splits)

lemma set_plans_oplog:
  "oplog (set_plans site_id req d) = oplog d @
     (case req of None \<Rightarrow> [] | Some ps \<Rightarrow> [Sites_set_plans site_id])"
  by (simp add: set_plans_def split: option.splits)

lemma set_verification_oplog:
  "oplog (set_verification e site_id old b d) = oplog d @
     (if old = None \<or> map_option v_enabled old \<noteq> Some b
      then [Sites_set_verification site_id] else [])"
  by (simp add: set_verification_def)

text \<open>
  C9: for an existing site and a body whose groups and plans exist and whose
  \<open>verification\<close> object carries \<open>enabled\<close>, the request succeeds, and the stored site has
  afterwards, when it had no verification field or a stored flag other than the requested
  one, the requested flag and the token \<open>uuid4\<close> generated during the request (also when
  the requested flag is \<open>False\<close>), and otherwise the verification field it had; a
  verification write is among the writes of the request in the first case only.
\<close>

theorem update_site_verification:
  assumes "find_one (\<lambda>s. s_id s = site_id) (sites d) = Some site"
    and "list_all (check_group_exists d) (get_list (sr_groups new_site))"
    and "list_all (check_plan_exists e) (get_list (sr_plans new_site))"
    and "sr_verification new_site = Some nv" and "vr_enabled nv = Some b"
  shows "\<exists>r d' site' ws. update_site e d site_id new_site = (Inr r, d') \<and> success r
      \<and> find_one (\<lambda>s. s_id s = site_id) (sites d') = Some site'
      \<and> oplog d' = oplog d @ ws
      \<and> (if s_verification site = None \<or> map_option v_enabled (s_verification site) \<noteq> Some b
         then s_verification site' = Some \<lparr>v_enabled = b, v_value = Some (uuid4 e 0)\<rparr>
              \<and> Sites_set_verification site_id \<in> set ws
         else s_verification site' = s_verification site
              \<and> Sites_set_verification site_id \<notin> set ws)"
proof -
  let ?d1 = "reconcile_groups (s_url site) (find_groups_for_site (groups d) (s_url site))
                (sr_groups new_site) d"
  let ?d2 = "set_plans site_id (sr_plans new_site) ?d1"
  let ?d3 = "set_verification e site_id (s_verification site) b ?d2"
  let ?regen = "s_verification site = None \<or> map_option v_enabled (s_verification site) \<noteq> Some b"
  let ?site2 = "site\<lparr>s_plans := (case sr_plans new_site of None \<Rightarrow> s_plans site | Some ps \<Rightarrow> ps)\<rparr>"
  let ?site3 = "?site2\<lparr>s_verification :=
          (if ?regen then Some \<lparr>v_enabled = b, v_value = Some (uuid4 e 0)\<rparr>
           else s_verification ?site2)\<rparr>"
  let ?gs = "(case sr_groups new_site of
        None \<Rightarrow> []
      | Some ng \<Rightarrow> map (\<lambda>n. Groups_addToSet n (s_url site))
                      (filter (\<lambda>n. n \<notin> set (find_groups_for_site (groups d) (s_url site))) ng)
                    @ map (\<lambda>n. Groups_pull n (s_url site))
                      (filter (\<lambda>n. n \<notin> set ng) (find_groups_for_site (groups d) (s_url site))))"
  let ?ps = "(case sr_plans new_site of None \<Rightarrow> [] | Some ps \<Rightarrow> [Sites_set_plans site_id])"
  let ?ws = "?gs @ ?ps @ (if ?regen then [Sites_set_verification site_id] else [])"
  have f1: "find_one (\<lambda>s. s_id s = site_id) (sites ?d1) = Some site"
    using assms(1) by simp
  have f3: "find_one (\<lambda>s. s_id s = site_id) (sites ?d3) = Some ?site3"
    by (rule set_verification_find[OF set_plans_find[OF f1]])
  have run: "update_site e d site_id new_site = (Inr (updated_site site_id ?d3), ?d3)"
    using assms by (rule update_site_run)
  have ok: "success (updated_site site_id ?d3)"
    using f3 by (simp add: updated_site_def)
  have o3: "oplog ?d3 = oplog d @ ?ws"
    by (simp only: set_verification_oplog set_plans_oplog reconcile_groups_oplog append_assoc)
  have w_in: "?regen \<Longrightarrow> Sites_set_verification site_id \<in> set ?ws"
    by simp
  have w_out: "\<not> ?regen \<Longrightarrow> Sites_set_verification site_id \<notin> set ?ws"
    by (auto split: option.splits)
  show ?thesis
  proof (cases ?regen)
    case True
    have "s_verification ?site3 = Some \<lparr>v_enabled = b, v_value = Some (uuid4 e 0)\<rparr>"
      using True by simp
    with run ok f3 o3 w_in[OF True] show ?thesis
      unfolding if_P[OF True] by blast
  next
    case False
    have "s_verification ?site3 = s_verification site"
      using False by simp
    with run ok f3 o3 w_out[OF False] show ?thesis
      unfolding if_not_P[OF False] by blast
  qed
qed

theorem update_site_verification_witness:
  "(\<exists>site'. find_one (\<lambda>s. s_id s = ''s1'')
        (sites (snd (update_site site_ext_example db_site_example ''s1'' (req_verify True))))
          = Some site'
      \<and> s_verification site' = Some \<lparr>v_enabled = True, v_value = Some ''uuid-0''\<rparr>)
   \<and> (\<exists>site'. find_one (\<lambda>s. s_id s = ''s1'')
        (sites (snd (update_site site_ext_example db_site_example ''s1'' (req_verify False))))
          = Some site'
      \<and> s_verification site' = Some \<lparr>v_enabled = False, v_value = None\<rparr>)"
proof -
  have f: "find_one (\<lambda>s. s_id s = ''s1'') (sites db_site_example) = Some site_example"
    by (simp add: find_one_def db_site_example_def db_empty_def site_example_def)
  have g: "\<And>b. list_all (check_group_exists db_site_example) (get_list (sr_groups (req_verify b)))"
    by (simp add: get_list_def req_verify_def)
  have p: "\<And>b. list_all (check_plan_exists site_ext_example) (get_list (sr_plans (req_verify b)))"
    by (simp add: get_list_def req_verify_def)
  have v: "\<And>b. sr_verification (req_verify b) = Some \<lparr>vr_enabled = Some b\<rparr>"
    by (simp add: req_verify_def)
  have b: "\<And>b. vr_enabled \<lparr>vr_enabled = Some b\<rparr> = Some b" by simp
  have sv: "s_verification site_example = Some \<lparr>v_enabled = False, v_value = None\<rparr>"
    by (simp add: site_example_def)
  have u: "uuid4 site_ext_example 0 = ''uuid-0''" by (simp add: site_ext_example_def)
  from update_site_verification[OF f g[of True] p[of True] v[of True] b[of True]]
  have 1: "\<exists>site'. find_one (\<lambda>s. s_id s = ''s1'')
        (sites (snd (update_site site_ext_example db_site_example ''s1'' (req_verify True))))
          = Some site'
      \<and> s_verification site' = Some \<lparr>v_enabled = True, v_value = Some ''uuid-0''\<rparr>"
    unfolding sv u by auto
  from update_site_verification[OF f g[of False] p[of False] v[of False] b[of False]]
  have 2: "\<exists>site'. find_one (\<lambda>s. s_id s = ''s1'')
        (sites (snd (update_site site_ext_example db_site_example ''s1'' (req_verify False))))
          = Some site'
      \<and> s_verification site' = Some \<lparr>v_enabled = False, v_value = None\<rparr>"
    unfolding sv u by auto
  from 1 2 show ?thesis by blast
qed


lemma reconcile_groups_groups:
  assumes "distinct (map g_name (groups d))"
  shows "groups (reconcile_groups url (find_groups_for_site (groups d) url) (Some ng) d)
    = map (\<lambda>g. if g_name g \<in> set ng \<and> g_name g \<notin> set (find_groups_for_site (groups d) url)
                then g\<lparr>g_sites := g_sites g @ [url]\<rparr>
                else if g_name g \<in> set (find_groups_for_site (groups d) url) \<and> g_name g \<notin> set ng
                then g\<lparr>g_sites := removeAll url (g_sites g)\<rparr>
                else g) (groups d)"
proof -
  let ?sg = "find_groups_for_site (groups d) url"
  let ?add = "\<lambda>g. if g_name g \<in> set ng \<and> g_name g \<notin> set ?sg then addToSet url g else g"
  let ?pull = "\<lambda>g. if g_name g \<in> set ?sg \<and> g_name g \<notin> set ng then pull url g else g"
  let ?dA = "add_new_groups url ?sg ng d"
  have a: "groups ?dA = map ?add (groups d)"
    using assms by (rule add_new_groups_groups)
  then have "map g_name (groups ?dA) = map g_name (groups d)"
    by (simp add: comp_def if_distrib cong: if_cong)
  with assms have "distinct (map g_name (groups ?dA))" by simp
  then have "groups (remove_old_groups url ng ?sg ?dA) = map ?pull (groups ?dA)"
    by (rule remove_old_groups_groups)
  also have "\<dots> = map (\<lambda>g. ?pull (?add g)) (groups d)"
    unfolding a by (simp add: comp_def)
  also have "\<dots> = map (\<lambda>g. if g_name g \<in> set ng \<and> g_name g \<notin> set ?sg
                then g\<lparr>g_sites := g_sites g @ [url]\<rparr>
                else if g_name g \<in> set ?sg \<and> g_name g \<notin> set ng
                then g\<lparr>g_sites := removeAll url (g_sites g)\<rparr>
                else g) (groups d)"
  proof (rule map_cong[OF refl])
    fix g assume "g \<in> set (groups d)"
    with assms have "g_name g \<in> set ?sg \<longleftrightarrow> url \<in> set (g_sites g)"
      by (rule derived_iff)
    then show "?pull (?add g) = (if g_name g \<in> set ng \<and> g_name g \<notin> set ?sg
                then g\<lparr>g_sites := g_sites g @ [url]\<rparr>
                else if g_name g \<in> set ?sg \<and> g_name g \<notin> set ng
                then g\<lparr>g_sites := removeAll url (g_sites g)\<rparr>
                else g)"
      by (simp add: addToSet_def pull_def)
  qed
  finally show ?thesis by (simp add: reconcile_groups_def)
qed

lemma derived_after_reconcile:
  assumes dist: "distinct (map g_name gs)"
    and ex: "\<forall>n \<in> set ng. n \<in> set (map g_name gs)"
  shows "set (find_groups_for_site
           (map (\<lambda>g. if g_name g \<in> set ng \<and> g_name g \<notin> set (find_groups_for_site gs url)
                then g\<lparr>g_sites := g_sites g @ [url]\<rparr>
                else if g_name g \<in> set (find_groups_for_site gs url) \<and> g_name g \<notin> set ng
                then g\<lparr>g_sites := removeAll url (g_sites g)\<rparr>
                else g) gs) url) = set ng"
proof -
  define step :: "group_doc \<Rightarrow> group_doc" where "step = (\<lambda>g. if g_name g \<in> set ng \<and> g_name g \<notin> set (find_groups_for_site gs url)
                then g\<lparr>g_sites := g_sites g @ [url]\<rparr>
                else if g_name g \<in> set (find_groups_for_site gs url) \<and> g_name g \<notin> set ng
                then g\<lparr>g_sites := removeAll url (g_sites g)\<rparr>
                else g)"
  have name: "\<And>g. g_name (step g) = g_name g" by (simp add: step_def)
  have mem: "\<And>g. g \<in> set gs \<Longrightarrow> url \<in> set (g_sites (step g)) \<longleftrightarrow> g_name g \<in> set ng"
  proof -
    fix g assume "g \<in> set gs"
    with dist have "g_name g \<in> set (find_groups_for_site gs url) \<longleftrightarrow> url \<in> set (g_sites g)"
      by (rule derived_iff)
    then show "url \<in> set (g_sites (step g)) \<longleftrightarrow> g_name g \<in> set ng"
      by (auto simp: step_def)
  qed
  have "set (find_groups_for_site (map step gs) url) = set ng"
  proof (intro equalityI subsetI)
    fix n assume "n \<in> set (find_groups_for_site (map step gs) url)"
    then obtain g where "g \<in> set gs" "url \<in> set (g_sites (step g))" "n = g_name (step g)"
      by (auto simp: find_groups_for_site_def)
    with mem name show "n \<in> set ng" by simp
  next
    fix n assume n: "n \<in> set ng"
    with ex obtain g where g: "g \<in> set gs" "g_name g = n" by auto
    with mem n have "url \<in> set (g_sites (step g))" by simp
    with g have "step g \<in> set (filter (\<lambda>g. url \<in> set (g_sites g)) (map step gs))"
      by simp
    then have "g_name (step g) \<in> set (find_groups_for_site (map step gs) url)"
      unfolding find_groups_for_site_def by (simp only: set_map) (rule imageI)
    with g name[of g] show "n \<in> set (find_groups_for_site (map step gs) url)"
      by simp
  qed
  then show ?thesis unfolding step_def .
qed

lemma update_site_succeeds:
  assumes "find_one (\<lambda>s. s_id s = site_id) (sites d) = Some site"
    and "list_all (check_group_exists d) (get_list (sr_groups new_site))"
    and "list_all (check_plan_exists e) (get_list (sr_plans new_site))"
    and "sr_verification new_site = Some nv" and "vr_enabled nv = Some b"
  shows "\<exists>r d'. update_site e d site_id new_site = (Inr r, d') \<and> success r"
proof -
  let ?d1 = "reconcile_groups (s_url site) (find_groups_for_site (groups d) (s_url site))
                (sr_groups new_site) d"
  let ?d2 = "set_plans site_id (sr_plans new_site) ?d1"
  let ?d3 = "set_verification e site_id (s_verification site) b ?d2"
  have f1: "find_one (\<lambda>s. s_id s = site_id) (sites ?d1) = Some site"
    using assms(1) by simp
  have "\<exists>s. find_one (\<lambda>s. s_id s = site_id) (sites ?d3) = Some s"
    using set_verification_find[OF set_plans_find[OF f1]] by blast
  then have "success (updated_site site_id ?d3)"
    by (auto simp: updated_site_def)
  with update_site_run[OF assms] show ?thesis by blast
qed

text \<open>
  C5: with unique group names, a successful update that supplies \<open>groups\<close> leaves the site
  derived as a member of exactly the requested groups. Its URL is appended to the \<open>sites\<close>
  of each requested group it was not derived from, removed from each group it was derived
  from that is not requested, and every other group document, the groups in both lists
  among them, stays as it was; the group writes issued are one \<open>$addToSet\<close> for each
  requested name not derived and one \<open>$pull\<close> for each derived name not requested, and no
  other.
\<close>

theorem update_site_reconciles_groups:
  assumes "distinct (map g_name (groups d))"
    and "find_one (\<lambda>s. s_id s = site_id) (sites d) = Some site"
    and "sr_groups new_site = Some new_groups"
    and "update_site e d site_id new_site = (Inr r, d')" and "success r"
  shows "set (find_groups_for_site (groups d') (s_url site)) = set new_groups
     \<and> (\<exists>v. r = Site_response v \<and> set (sv_groups v) = set new_groups)
     \<and> groups d' =
         map (\<lambda>g. if g_name g \<in> set new_groups
                      \<and> g_name g \<notin> set (find_groups_for_site (groups d) (s_url site))
                   then g\<lparr>g_sites := g_sites g @ [s_url site]\<rparr>
                   else if g_name g \<in> set (find_groups_for_site (groups d) (s_url site))
                      \<and> g_name g \<notin> set new_groups
                   then g\<lparr>g_sites := removeAll (s_url site) (g_sites g)\<rparr>
                   else g) (groups d)
     \<and> (\<exists>ws. oplog d' = oplog d
            @ map (\<lambda>n. Groups_addToSet n (s_url site))
                (filter (\<lambda>n. n \<notin> set (find_groups_for_site (groups d) (s_url site))) new_groups)
            @ map (\<lambda>n. Groups_pull n (s_url site))
                (filter (\<lambda>n. n \<notin> set new_groups) (find_groups_for_site (groups d) (s_url site)))
            @ ws
          \<and> set ws \<subseteq> {Sites_set_plans site_id, Sites_set_verification site_id})"
proof -
  let ?url = "s_url site"
  let ?sg = "find_groups_for_site (groups d) ?url"
  from update_site_success[OF assms(4,5)] assms(2) obtain nv b where
    g: "list_all (check_group_exists d) (get_list (sr_groups new_site))"
    and p: "list_all (check_plan_exists e) (get_list (sr_plans new_site))"
    and v: "sr_verification new_site = Some nv" "vr_enabled nv = Some b"
    by auto
  let ?d1 = "reconcile_groups ?url ?sg (sr_groups new_site) d"
  let ?d2 = "set_plans site_id (sr_plans new_site) ?d1"
  let ?d3 = "set_verification e site_id (s_verification site) b ?d2"
  from update_site_run[OF assms(2) g p v] assms(4)
  have r: "r = updated_site site_id ?d3" and d': "d' = ?d3" by simp_all
  let ?step = "\<lambda>g. if g_name g \<in> set new_groups \<and> g_name g \<notin> set ?sg
                   then g\<lparr>g_sites := g_sites g @ [?url]\<rparr>
                   else if g_name g \<in> set ?sg \<and> g_name g \<notin> set new_groups
                   then g\<lparr>g_sites := removeAll ?url (g_sites g)\<rparr>
                   else g"
  have gd: "groups d' = map ?step (groups d)"
    unfolding d' using reconcile_groups_groups[OF assms(1), of ?url new_groups] assms(3)
    by simp
  have ex: "\<forall>n \<in> set new_groups. n \<in> set (map g_name (groups d))"
    using g assms(3) by (simp add: get_list_def list_all_iff check_group_exists_iff)
  have 1: "set (find_groups_for_site (groups d') ?url) = set new_groups"
    unfolding gd using assms(1) ex by (rule derived_after_reconcile)
  have f1: "find_one (\<lambda>s. s_id s = site_id) (sites ?d1) = Some site"
    using assms(2) by simp
  let ?site2 = "site\<lparr>s_plans := (case sr_plans new_site of None \<Rightarrow> s_plans site | Some ps \<Rightarrow> ps)\<rparr>"
  let ?site3 = "?site2\<lparr>s_verification :=
          (if s_verification site = None \<or> map_option v_enabled (s_verification site) \<noteq> Some b
           then Some \<lparr>v_enabled = b, v_value = Some (uuid4 e 0)\<rparr>
           else s_verification ?site2)\<rparr>"
  have f2: "find_one (\<lambda>s. s_id s = site_id) (sites ?d2) = Some ?site2"
    by (rule set_plans_find[OF f1])
  have "find_one (\<lambda>s. s_id s = site_id) (sites ?d3) = Some ?site3"
    by (rule set_verification_find[OF f2])
  then obtain site' where f3: "find_one (\<lambda>s. s_id s = site_id) (sites ?d3) = Some site'"
    and u: "s_url site' = ?url"
    by simp
  have "r = Site_response \<lparr>sv_site = site', sv_groups = find_groups_for_site (groups d') ?url\<rparr>"
    unfolding r using f3 u d' by (simp add: updated_site_def)
  with 1 have 2: "\<exists>v. r = Site_response v \<and> set (sv_groups v) = set new_groups"
    by simp
  let ?ws = "(case sr_plans new_site of None \<Rightarrow> [] | Some ps \<Rightarrow> [Sites_set_plans site_id])
      @ (if s_verification site = None \<or> map_option v_enabled (s_verification site) \<noteq> Some b
         then [Sites_set_verification site_id] else [])"
  have o: "oplog d' = oplog d
            @ map (\<lambda>n. Groups_addToSet n ?url) (filter (\<lambda>n. n \<notin> set ?sg) new_groups)
            @ map (\<lambda>n. Groups_pull n ?url) (filter (\<lambda>n. n \<notin> set new_groups) ?sg)
            @ ?ws"
    unfolding d' by (simp add: set_verification_oplog set_plans_oplog reconcile_groups_oplog assms(3))
  have s: "set ?ws \<subseteq> {Sites_set_plans site_id, Sites_set_verification site_id}"
    by (auto split: option.splits if_splits)
  from o s have 4: "\<exists>ws. oplog d' = oplog d
            @ map (\<lambda>n. Groups_addToSet n ?url) (filter (\<lambda>n. n \<notin> set ?sg) new_groups)
            @ map (\<lambda>n. Groups_pull n ?url) (filter (\<lambda>n. n \<notin> set new_groups) ?sg)
            @ ws
          \<and> set ws \<subseteq> {Sites_set_plans site_id, Sites_set_verification site_id}"
    by blast
  from 1 2 gd 4 show ?thesis by blast
qed

theorem update_site_reconciles_groups_witness:
  "find_groups_for_site (groups db_site_example) ''http://a.example'' = [''A'', ''B'']
   \<and> set (find_groups_for_site
        (groups (snd (update_site site_ext_example db_site_example ''s1'' req_groups_BC)))
        ''http://a.example'') = {''B'', ''C''}"
proof -
  have f: "find_one (\<lambda>s. s_id s = ''s1'') (sites db_site_example) = Some site_example"
    by (simp add: find_one_def db_site_example_def db_empty_def site_example_def)
  have dist: "distinct (map g_name (groups db_site_example))"
    by (simp add: db_site_example_def db_empty_def group_example_def)
  have gr: "sr_groups req_groups_BC = Some [''B'', ''C'']"
    by (simp add: req_groups_BC_def)
  have g: "list_all (check_group_exists db_site_example) (get_list (sr_groups req_groups_BC))"
    by (simp add: gr get_list_def check_group_exists_iff db_site_example_def db_empty_def
        group_example_def)
  have p: "list_all (check_plan_exists site_ext_example) (get_list (sr_plans req_groups_BC))"
    by (simp add: get_list_def req_groups_BC_def)
  have v: "sr_verification req_groups_BC = Some \<lparr>vr_enabled = Some False\<rparr>"
    by (simp add: req_groups_BC_def)
  have b: "vr_enabled \<lparr>vr_enabled = Some False\<rparr> = Some False" by simp
  from update_site_succeeds[OF f g p v b] obtain r d' where
    run: "update_site site_ext_example db_site_example ''s1'' req_groups_BC = (Inr r, d')"
    and ok: "success r"
    by blast
  have u: "s_url site_example = ''http://a.example''" by (simp add: site_example_def)
  from update_site_reconciles_groups[OF dist f gr run ok]
  have "set (find_groups_for_site (groups d') ''http://a.example'') = set [''B'', ''C'']"
    unfolding u by blast
  moreover have "find_groups_for_site (groups db_site_example) ''http://a.example'' = [''A'', ''B'']"
    by (simp add: find_groups_for_site_def db_site_example_def db_empty_def group_example_def)
  ultimately show ?thesis using run by simp
qed

section \<open>What the site URL check accepts\<close>

declare ends.simps [simp del]

lemma star_decomp:
  "p \<in> star A \<Longrightarrow> p = [] \<or> (\<exists>p1 p2. p = p1 @ p2 \<and> p1 \<in> A \<and> p1 \<noteq> [] \<and> p2 \<in> star A)"
proof (induction rule: star.induct)
  case star_nil
  then show ?case by simp
next
  case (star_step p q)
  show ?case
  proof (cases "p = []")
    case True
    with star_step.IH show ?thesis by simp
  next
    case False
    with star_step.hyps show ?thesis by blast
  qed
qed

lemma ends_lang:
  "anchor_free r \<Longrightarrow>
     set (ends r (k, s)) = {(k + length p, s') | p s'. s = p @ s' \<and> p \<in> lang r}"
proof (induction r "(k, s)" arbitrary: k s rule: ends.induct)
  case 1
  then show ?case by (auto simp: ends.simps)
next
  case (2 rs k s)
  then show ?case by (cases s) (auto simp: ends.simps)
next
  case (3 a b)
  have a: "set (ends a (k, s)) = {(k + length p, s') | p s'. s = p @ s' \<and> p \<in> lang a}"
    using 3 by simp
  have b: "\<And>k' s'. (k', s') \<in> set (ends a (k, s)) \<Longrightarrow>
      set (ends b (k', s')) = {(k' + length q, t) | q t. s' = q @ t \<and> q \<in> lang b}"
    using 3 by simp
  show ?case
  proof (intro equalityI subsetI)
    fix x assume "x \<in> set (ends (Seq a b) (k, s))"
    then obtain m where m: "m \<in> set (ends a (k, s))" and x: "x \<in> set (ends b m)"
      by (auto simp: ends.simps(3))
    from m a obtain p s' where p: "m = (k + length p, s')" "s = p @ s'" "p \<in> lang a" by auto
    from x p(1) b[of "k + length p" s'] m obtain q t where
      q: "x = (k + length p + length q, t)" "s' = q @ t" "q \<in> lang b"
      by auto
    have "x = (k + length (p @ q), t) \<and> s = (p @ q) @ t \<and> p @ q \<in> lang (Seq a b)"
      using p q by auto
    then show "x \<in> {(k + length p, s') | p s'. s = p @ s' \<and> p \<in> lang (Seq a b)}"
      by blast
  next
    fix x assume "x \<in> {(k + length p, s') | p s'. s = p @ s' \<and> p \<in> lang (Seq a b)}"
    then obtain p q t where x: "x = (k + length (p @ q), t)" "s = (p @ q) @ t"
      "p \<in> lang a" "q \<in> lang b"
      by auto
    then have m: "(k + length p, q @ t) \<in> set (ends a (k, s))" using a by auto
    have "x \<in> set (ends b (k + length p, q @ t))" using b[OF m] x by auto
    with m show "x \<in> set (ends (Seq a b) (k, s))" by (force simp: ends.simps(3))
  qed
next
  case (4 a b)
  then show ?case by (auto simp: ends.simps(4))
next
  case (5 a k s)
  have a: "set (ends a (k, s)) = {(k + length p, s') | p s'. s = p @ s' \<and> p \<in> lang a}"
    using "5.prems" by (intro "5.hyps"(1)) simp
  have st: "\<And>k' s'. (k', s') \<in> set (ends a (k, s)) \<Longrightarrow> length s' < length s \<Longrightarrow>
      set (ends (Star a) (k', s')) = {(k' + length q, t) | q t. s' = q @ t \<and> q \<in> star (lang a)}"
  proof -
    fix k' s' assume "(k', s') \<in> set (ends a (k, s))" "length s' < length s"
    then have "(k', s') \<in> set (filter (\<lambda>st'. length (snd st') < length (snd (k, s))) (ends a (k, s)))"
      by simp
    from "5.hyps"(2)[OF this "5.prems"]
    show "set (ends (Star a) (k', s')) = {(k' + length q, t) | q t. s' = q @ t \<and> q \<in> star (lang a)}"
      by (simp del: ends.simps)
  qed
  have unf: "set (ends (Star a) (k, s)) =
      insert (k, s) (\<Union>m \<in> {m \<in> set (ends a (k, s)). length (snd m) < length s}. set (ends (Star a) m))"
    by (subst ends.simps) (simp del: ends.simps)
  show ?case
  proof (intro equalityI subsetI)
    fix x assume "x \<in> set (ends (Star a) (k, s))"
    then consider "x = (k, s)"
      | m where "m \<in> set (ends a (k, s))" "length (snd m) < length s" "x \<in> set (ends (Star a) m)"
      unfolding unf by blast
    then show "x \<in> {(k + length p, s') | p s'. s = p @ s' \<and> p \<in> lang (Star a)}"
    proof cases
      case 1
      have "x = (k + length ([]::string), s) \<and> s = [] @ s \<and> [] \<in> lang (Star a)"
        using 1 by (simp add: star_nil)
      then show ?thesis by blast
    next
      case 2
      from 2(1) a obtain p s' where p: "m = (k + length p, s')" "s = p @ s'" "p \<in> lang a" by blast
      from 2 p have "x \<in> {(k + length p + length q, t) | q t. s' = q @ t \<and> q \<in> star (lang a)}"
        using st[of "k + length p" s'] by (simp del: ends.simps)
      then obtain q t where
        q: "x = (k + length p + length q, t)" "s' = q @ t" "q \<in> star (lang a)"
        by blast
      have "p @ q \<in> star (lang a)" using p(3) q(3) by (rule star_step)
      then have "x = (k + length (p @ q), t) \<and> s = (p @ q) @ t \<and> p @ q \<in> lang (Star a)"
        using p q by simp
      then show ?thesis by blast
    qed
  next
    fix x assume "x \<in> {(k + length p, s') | p s'. s = p @ s' \<and> p \<in> lang (Star a)}"
    then obtain p t where x: "x = (k + length p, t)" "s = p @ t" "p \<in> star (lang a)"
      by auto
    from star_decomp[OF x(3)] show "x \<in> set (ends (Star a) (k, s))"
    proof
      assume "p = []"
      with x show ?thesis unfolding unf by simp
    next
      assume "\<exists>p1 p2. p = p1 @ p2 \<and> p1 \<in> lang a \<and> p1 \<noteq> [] \<and> p2 \<in> star (lang a)"
      then obtain p1 p2 where d: "p = p1 @ p2" "p1 \<in> lang a" "p1 \<noteq> []" "p2 \<in> star (lang a)"
        by blast
      have "(k + length p1, p2 @ t) \<in> {(k + length p, s') | p s'. s = p @ s' \<and> p \<in> lang a}"
        using d x by auto
      then have m: "(k + length p1, p2 @ t) \<in> set (ends a (k, s))"
        unfolding a .
      have l: "length (p2 @ t) < length s" using d x by simp
      have "x \<in> {(k + length p1 + length q, t') | q t'. p2 @ t = q @ t' \<and> q \<in> star (lang a)}"
        using d x by auto
      then have "x \<in> set (ends (Star a) (k + length p1, p2 @ t))"
        unfolding st[OF m l] .
      with m l show ?thesis unfolding unf by force
    qed
  qed
next
  case (6 k s)
  then show ?case by simp
next
  case (7 k s)
  then show ?case by simp
qed

lemma anchor_free_lit [simp]: "anchor_free (lit w)"
  by (induction w) (simp_all add: chr_def)

lemma anchor_free_url_re: "anchor_free url_re"
  by (simp add: url_re_def label_def digit_def plus_def opt_def chr_def)

lemma anchor_free_cidr_re: "anchor_free cidr_re"
  by (simp add: cidr_re_def octet_def mask_def digit_def opt_def chr_def numeral_3_eq_3 numeral_2_eq_2)

lemma ends_nonempty: "ends r st \<noteq> [] \<longleftrightarrow> set (ends r st) \<noteq> {}"
  by simp

lemma ends_Eol_any:
  "concat (map (ends Eol) ms) \<noteq> [] \<longleftrightarrow> (\<exists>m \<in> set ms. snd m = [] \<or> snd m = [CHR 0x0A])"
proof (induction ms)
  case Nil
  then show ?case by simp
next
  case (Cons m ms)
  obtain k s where m: "m = (k, s)" by (cases m)
  have "ends Eol m \<noteq> [] \<longleftrightarrow> snd m = [] \<or> snd m = [CHR 0x0A]"
    unfolding m by (simp add: ends.simps(7))
  with Cons show ?case by simp
qed

lemma check_site_url_iff:
  "check_site_url u \<longleftrightarrow>
     (\<exists>p r. u = p @ r \<and> p \<in> lang url_re)
     \<or> u \<in> lang cidr_re
     \<or> (\<exists>w. u = w @ [CHR 0x0A] \<and> w \<in> lang cidr_re)"
proof -
  have su: "set (ends url_re (0, u)) = {(0 + length p, r) | p r. u = p @ r \<and> p \<in> lang url_re}"
    using anchor_free_url_re by (rule ends_lang)
  have sc: "set (ends cidr_re (0, u)) = {(0 + length p, r) | p r. u = p @ r \<and> p \<in> lang cidr_re}"
    using anchor_free_cidr_re by (rule ends_lang)
  have e1: "ends (Seq Bol url_re) (0, u) = ends url_re (0, u)"
    by (simp add: ends.simps(3) ends.simps(6))
  have "ends url_re (0, u) \<noteq> [] \<longleftrightarrow> set (ends url_re (0, u)) \<noteq> {}"
    by (rule ends_nonempty)
  also have "\<dots> \<longleftrightarrow> (\<exists>p r. u = p @ r \<and> p \<in> lang url_re)"
    unfolding su by blast
  finally have url: "ends (Seq Bol url_re) (0, u) \<noteq> [] \<longleftrightarrow> (\<exists>p r. u = p @ r \<and> p \<in> lang url_re)"
    unfolding e1 .
  have "ends (Seq cidr_re Eol) (0, u) \<noteq> []
      \<longleftrightarrow> (\<exists>m \<in> set (ends cidr_re (0, u)). snd m = [] \<or> snd m = [CHR 0x0A])"
    unfolding ends.simps(3) by (rule ends_Eol_any)
  also have "\<dots> \<longleftrightarrow> u \<in> lang cidr_re \<or> (\<exists>w. u = w @ [CHR 0x0A] \<and> w \<in> lang cidr_re)"
  proof
    assume "\<exists>m \<in> set (ends cidr_re (0, u)). snd m = [] \<or> snd m = [CHR 0x0A]"
    then obtain m where m: "m \<in> set (ends cidr_re (0, u))" "snd m = [] \<or> snd m = [CHR 0x0A]"
      by blast
    from m(1) obtain p r where p: "m = (0 + length p, r)" "u = p @ r" "p \<in> lang cidr_re"
      unfolding sc by blast
    from m(2) p(1) have "r = [] \<or> r = [CHR 0x0A]" by simp
    then show "u \<in> lang cidr_re \<or> (\<exists>w. u = w @ [CHR 0x0A] \<and> w \<in> lang cidr_re)"
    proof
      assume "r = []"
      with p show ?thesis by simp
    next
      assume "r = [CHR 0x0A]"
      with p show ?thesis by blast
    qed
  next
    assume "u \<in> lang cidr_re \<or> (\<exists>w. u = w @ [CHR 0x0A] \<and> w \<in> lang cidr_re)"
    then show "\<exists>m \<in> set (ends cidr_re (0, u)). snd m = [] \<or> snd m = [CHR 0x0A]"
    proof
      assume "u \<in> lang cidr_re"
      then have "(0 + length u, []) \<in> {(0 + length p, r) | p r. u = p @ r \<and> p \<in> lang cidr_re}"
        by simp
      then have "(0 + length u, []) \<in> set (ends cidr_re (0, u))" unfolding sc .
      then show ?thesis by (rule bexI[rotated]) simp
    next
      assume "\<exists>w. u = w @ [CHR 0x0A] \<and> w \<in> lang cidr_re"
      then obtain w where w: "u = w @ [CHR 0x0A]" "w \<in> lang cidr_re" by blast
      then have "(0 + length w, [CHR 0x0A]) \<in> {(0 + length p, r) | p r. u = p @ r \<and> p \<in> lang cidr_re}"
        by blast
      then have "(0 + length w, [CHR 0x0A]) \<in> set (ends cidr_re (0, u))" unfolding sc .
      then show ?thesis by (rule bexI[rotated]) simp
    qed
  qed
  finally have cidr: "ends (Seq cidr_re Eol) (0, u) \<noteq> []
      \<longleftrightarrow> u \<in> lang cidr_re \<or> (\<exists>w. u = w @ [CHR 0x0A] \<and> w \<in> lang cidr_re)" .
  have "check_site_url u \<longleftrightarrow>
      ends (Seq Bol url_re) (0, u) \<noteq> [] \<or> ends (Seq cidr_re Eol) (0, u) \<noteq> []"
    unfolding check_site_url_def re_match_def site_url_regex_def ends.simps(4) by simp
  then show ?thesis unfolding url cidr by simp
qed

lemma lang_if_ends:
  assumes "anchor_free r" and "(length u, []) \<in> set (ends r (0, u))"
  shows "u \<in> lang r"
proof -
  from assms(2) ends_lang[OF assms(1), of 0 u] obtain p s' where
    "(length u, []) = (length p, s')" "u = p @ s'" "p \<in> lang r"
    by auto
  then show ?thesis by simp
qed

lemma lang_chr [simp]: "lang (chr c) = {[c]}"
  by (auto simp: chr_def in_cls_def)

lemma lang_lit [simp]: "lang (lit w) = {w}"
  by (induction w) auto

lemma lang_opt: "lang (opt r) = lang r \<union> {[]}"
  by (simp add: opt_def)

lemma lang_plus: "lang (plus r) = {p @ q | p q. p \<in> lang r \<and> q \<in> star (lang r)}"
  by (simp add: plus_def)

lemma star_concat: "p \<in> star A \<longleftrightarrow> (\<exists>ps. set ps \<subseteq> A \<and> p = concat ps)"
proof
  assume "p \<in> star A"
  then show "\<exists>ps. set ps \<subseteq> A \<and> p = concat ps"
  proof (induction rule: star.induct)
    case star_nil
    have "set [] \<subseteq> A \<and> [] = concat ([] :: string list)" by simp
    then show ?case by blast
  next
    case (star_step p q)
    then obtain ps where "set ps \<subseteq> A" "q = concat ps" by blast
    with star_step.hyps(1) have "set (p # ps) \<subseteq> A \<and> p @ q = concat (p # ps)" by simp
    then show ?case by blast
  qed
next
  assume "\<exists>ps. set ps \<subseteq> A \<and> p = concat ps"
  then obtain ps where "set ps \<subseteq> A" "p = concat ps" by blast
  then show "p \<in> star A"
  proof (induction ps arbitrary: p)
    case Nil
    then show ?case by (simp add: star_nil)
  next
    case (Cons a ps)
    then have "a \<in> A" "concat ps \<in> star A" by simp_all
    then have "a @ concat ps \<in> star A" by (rule star_step)
    with Cons.prems show ?case by simp
  qed
qed

lemma star_Cls: "star {[c] | c. P c} = {w. \<forall>c \<in> set w. P c}"
proof (intro equalityI subsetI)
  fix w assume "w \<in> star {[c] | c. P c}"
  then show "w \<in> {w. \<forall>c \<in> set w. P c}"
    by (induction rule: star.induct) auto
next
  fix w assume "w \<in> {w. \<forall>c \<in> set w. P c}"
  then have "\<forall>c \<in> set w. P c" by simp
  then show "w \<in> star {[c] | c. P c}"
  proof (induction w)
    case Nil
    then show ?case by (simp add: star_nil)
  next
    case (Cons c w)
    then have "[c] \<in> {[c] | c. P c}" "w \<in> star {[c] | c. P c}" by auto
    then have "[c] @ w \<in> star {[c] | c. P c}" by (rule star_step)
    then show ?case by simp
  qed
qed

declare show_nat.simps [simp del]

lemma below_ten: "(k::nat) < 10 \<longleftrightarrow> k \<in> set [0, 1, 2, 3, 4, 5, 6, 7, 8, 9]"
  by (simp only: set_simps insert_iff empty_iff) arith

lemma of_char_dg: "k < 10 \<Longrightarrow> of_char (dg k) = (48 + k :: nat)"
  unfolding below_ten by (auto simp: dg_def)

lemma dg_inj: "j < 10 \<Longrightarrow> k < 10 \<Longrightarrow> dg j = dg k \<Longrightarrow> j = k"
proof -
  assume j: "j < 10" and k: "k < 10" and "dg j = dg k"
  then have "(of_char (dg j) :: nat) = of_char (dg k)" by (simp only:)
  then have "(48 + j :: nat) = 48 + k" unfolding of_char_dg[OF j] of_char_dg[OF k] .
  then show ?thesis by (simp only: add_left_cancel)
qed

lemma digit_range:
  assumes "a \<le> b" and "b < 10"
  shows "in_cls c [(dg a, dg b)] \<longleftrightarrow> (\<exists>k. a \<le> k \<and> k \<le> b \<and> c = dg k)"
proof
  assume "in_cls c [(dg a, dg b)]"
  then have r: "48 + a \<le> (of_char c :: nat)" "(of_char c :: nat) \<le> 48 + b"
    using assms of_char_dg[of a] of_char_dg[of b] by (simp_all add: in_cls_def)
  define k where "k = (of_char c :: nat) - 48"
  have k: "a \<le> k" "k \<le> b" "(of_char c :: nat) = 48 + k" using r by (simp_all add: k_def)
  then have "(of_char c :: nat) = of_char (dg k)" using assms of_char_dg[of k] by simp
  then have "c = dg k" by simp
  with k show "\<exists>k. a \<le> k \<and> k \<le> b \<and> c = dg k" by blast
next
  assume "\<exists>k. a \<le> k \<and> k \<le> b \<and> c = dg k"
  then obtain k where k: "a \<le> k" "k \<le> b" "c = dg k" by blast
  then show "in_cls c [(dg a, dg b)]"
    using assms of_char_dg[of a] of_char_dg[of b] of_char_dg[of k] by (simp add: in_cls_def)
qed

lemma dg_chars:
  "CHR ''0'' = dg 0" "CHR ''1'' = dg 1" "CHR ''2'' = dg 2" "CHR ''3'' = dg 3" "CHR ''4'' = dg 4"
  "CHR ''5'' = dg 5" "CHR ''9'' = dg 9"
  by (simp_all add: dg_def)

lemma is_digit_dg: "is_digit c \<longleftrightarrow> (\<exists>k < 10. c = dg k)"
proof -
  have "''0123456789'' = map dg [0, 1, 2, 3, 4, 5, 6, 7, 8, 9]"
    by (simp add: dg_def)
  then have "is_digit c \<longleftrightarrow> c \<in> dg ` set [0, 1, 2, 3, 4, 5, 6, 7, 8, 9]"
    unfolding is_digit_def by (simp only: set_map)
  also have "\<dots> \<longleftrightarrow> (\<exists>k \<in> set [0, 1, 2, 3, 4, 5, 6, 7, 8, 9]. c = dg k)"
    by blast
  also have "\<dots> \<longleftrightarrow> (\<exists>k < 10. c = dg k)"
    using below_ten by blast
  finally show ?thesis .
qed

lemma show_nat_1: "n < 10 \<Longrightarrow> show_nat n = [dg n]"
  by (subst show_nat.simps) (simp add: dg_def)

lemma show_nat_2: "10 \<le> n \<Longrightarrow> n < 100 \<Longrightarrow> show_nat n = [dg (n div 10), dg (n mod 10)]"
  by (subst show_nat.simps) (simp add: show_nat_1 dg_def)

lemma show_nat_3:
  "100 \<le> n \<Longrightarrow> n < 1000 \<Longrightarrow> show_nat n = [dg (n div 100), dg (n div 10 mod 10), dg (n mod 10)]"
  by (subst show_nat.simps) (simp add: show_nat_2 dg_def div_mult2_eq[symmetric])

lemma in_lang_digits:
  "a \<le> b \<Longrightarrow> b < 10 \<Longrightarrow> w \<in> lang (Cls [(dg a, dg b)]) \<longleftrightarrow> (\<exists>k. a \<le> k \<and> k \<le> b \<and> w = [dg k])"
  by (auto simp: digit_range)

lemma in_lang_Seq: "w \<in> lang (Seq a b) \<longleftrightarrow> (\<exists>p q. w = p @ q \<and> p \<in> lang a \<and> q \<in> lang b)"
  by auto

lemma octet_alts:
  "lang octet =
     lang (Cls [(dg 0, dg 9)])
     \<union> (lang (Seq (Cls [(dg 1, dg 9)]) (Cls [(dg 0, dg 9)]))
     \<union> (lang (Seq (chr (dg 1)) (Seq (Cls [(dg 0, dg 9)]) (Seq (Cls [(dg 0, dg 9)]) Eps)))
     \<union> (lang (Seq (chr (dg 2)) (Seq (Cls [(dg 0, dg 4)]) (Cls [(dg 0, dg 9)])))
     \<union> lang (Seq (Seq (chr (dg 2)) (Seq (chr (dg 5)) Eps)) (Cls [(dg 0, dg 5)])))))"
  by (simp only: octet_def alts.simps seqs.simps rep.simps lit.simps lang.simps(4) dg_chars
      numeral_2_eq_2)

lemma digit_in:
  "a \<le> k \<Longrightarrow> k \<le> b \<Longrightarrow> b < 10 \<Longrightarrow> [dg k] \<in> lang (Cls [(dg a, dg b)])"
  using in_lang_digits[of a b "[dg k]"] by auto

lemma digit_out:
  assumes "w \<in> lang (Cls [(dg a, dg b)])" and "a \<le> b" and "b < 10"
  obtains k where "a \<le> k" and "k \<le> b" and "w = [dg k]"
  using assms in_lang_digits[of a b w] by auto

lemma seq_in: "p \<in> lang a \<Longrightarrow> q \<in> lang b \<Longrightarrow> p @ q \<in> lang (Seq a b)"
  by auto

lemma seq_out:
  assumes "w \<in> lang (Seq a b)"
  obtains p q where "w = p @ q" and "p \<in> lang a" and "q \<in> lang b"
  using assms by auto

lemma chr_in: "[c] \<in> lang (chr c)"
  by simp

lemma eps_in: "[] \<in> lang Eps"
  by simp

lemma div_in: "a * k \<le> n \<Longrightarrow> n < a * k + k \<Longrightarrow> n div k = (a::nat)"
  by (rule div_nat_eqI) (simp_all add: mult.commute)

lemma mod_in: "a * k \<le> n \<Longrightarrow> n < a * k + k \<Longrightarrow> n mod k = n - (a::nat) * k"
  using div_in[of a k n] minus_div_mult_eq_mod[of n k] by simp

lemma digits_10_99:
  assumes "10 \<le> (n::nat)" and "n < 100"
  shows "1 \<le> n div 10" and "n div 10 \<le> 9" and "n mod 10 \<le> 9"
proof -
  show "1 \<le> n div 10" using div_le_mono[OF assms(1), of 10] by simp
  have "n div 10 < 10" using assms(2) by (intro less_mult_imp_div_less) simp
  then show "n div 10 \<le> 9" by simp
  have "n mod 10 < 10" by simp
  then show "n mod 10 \<le> 9" by simp
qed

lemma digits_100_199:
  assumes "100 \<le> (n::nat)" and "n < 200"
  shows "n div 100 = 1" and "n div 10 mod 10 \<le> 9" and "n mod 10 \<le> 9"
proof -
  show "n div 100 = 1" using assms by (intro div_in) simp_all
  have "n div 10 mod 10 < 10" by simp
  then show "n div 10 mod 10 \<le> 9" by simp
  have "n mod 10 < 10" by simp
  then show "n mod 10 \<le> 9" by simp
qed

lemma digits_200_249:
  assumes "200 \<le> (n::nat)" and "n < 250"
  shows "n div 100 = 2" and "n div 10 mod 10 \<le> 4" and "n mod 10 \<le> 9"
proof -
  show "n div 100 = 2" using assms by (intro div_in) simp_all
  have l: "20 \<le> n div 10" using div_le_mono[OF assms(1), of 10] by simp
  have u: "n div 10 < 25" using assms(2) by (intro less_mult_imp_div_less) simp
  have "n div 10 mod 10 = n div 10 - 2 * 10" using l u by (intro mod_in) simp_all
  then show "n div 10 mod 10 \<le> 4" using u by simp
  have "n mod 10 < 10" by simp
  then show "n mod 10 \<le> 9" by simp
qed

lemma digits_250_255:
  assumes "250 \<le> (n::nat)" and "n \<le> 255"
  shows "n div 100 = 2" and "n div 10 mod 10 = 5" and "n mod 10 \<le> 5"
proof -
  show "n div 100 = 2" using assms by (intro div_in) simp_all
  have "n div 10 = 25" using assms by (intro div_in) simp_all
  then show "n div 10 mod 10 = 5" by simp
  have "n mod 10 = n - 25 * 10" using assms by (intro mod_in) simp_all
  then show "n mod 10 \<le> 5" using assms(2) by simp
qed

lemma digits_10_29:
  assumes "10 \<le> (n::nat)" and "n < 30"
  shows "1 \<le> n div 10" and "n div 10 \<le> 2" and "n mod 10 \<le> 9"
proof -
  show "1 \<le> n div 10" using div_le_mono[OF assms(1), of 10] by simp
  have "n div 10 < 3" using assms(2) by (intro less_mult_imp_div_less) simp
  then show "n div 10 \<le> 2" by simp
  have "n mod 10 < 10" by simp
  then show "n mod 10 \<le> 9" by simp
qed

lemma digits_30_32:
  assumes "30 \<le> (n::nat)" and "n \<le> 32"
  shows "n div 10 = 3" and "n mod 10 \<le> 2"
proof -
  show "n div 10 = 3" using assms by (intro div_in) simp_all
  have "n mod 10 = n - 3 * 10" using assms by (intro mod_in) simp_all
  then show "n mod 10 \<le> 2" using assms(2) by simp
qed

lemma octet_cases:
  obtains "n < 10" | "10 \<le> n" "n < 100" | "100 \<le> n" "n < 200" | "200 \<le> n" "n < 250"
    | "250 \<le> (n::nat)"
  by (meson not_less)

lemma mask_cases:
  obtains "n < 10" | "10 \<le> n" "n < 30" | "30 \<le> (n::nat)"
  by (meson not_less)

lemma show_nat_octet: "n \<le> 255 \<Longrightarrow> show_nat n \<in> lang octet"
proof -
  assume n: "n \<le> 255"
  show ?thesis
  proof (cases n rule: octet_cases)
    case 1
    then have "[dg n] \<in> lang (Cls [(dg 0, dg 9)])" by (intro digit_in) simp_all
    then show ?thesis unfolding octet_alts show_nat_1[OF 1] by blast
  next
    case 2
    have "1 \<le> n div 10" "n div 10 \<le> 9" "n mod 10 \<le> 9" using 2 by (rule digits_10_99)+
    then have "[dg (n div 10)] @ [dg (n mod 10)]
        \<in> lang (Seq (Cls [(dg 1, dg 9)]) (Cls [(dg 0, dg 9)]))"
      by (intro seq_in digit_in) simp_all
    then show ?thesis unfolding octet_alts show_nat_2[OF 2] by simp
  next
    case 3
    have d: "n div 100 = 1" "n div 10 mod 10 \<le> 9" "n mod 10 \<le> 9" using 3 by (rule digits_100_199)+
    have "[dg 1] @ [dg (n div 10 mod 10)] @ [dg (n mod 10)] @ []
        \<in> lang (Seq (chr (dg 1)) (Seq (Cls [(dg 0, dg 9)]) (Seq (Cls [(dg 0, dg 9)]) Eps)))"
      using d by (intro seq_in digit_in chr_in eps_in) simp_all
    moreover have "show_nat n = [dg 1] @ [dg (n div 10 mod 10)] @ [dg (n mod 10)] @ []"
      using show_nat_3[of n] 3 d by simp
    ultimately show ?thesis unfolding octet_alts by (simp only: Un_iff) blast
  next
    case 4
    have d: "n div 100 = 2" "n div 10 mod 10 \<le> 4" "n mod 10 \<le> 9" using 4 by (rule digits_200_249)+
    have "[dg 2] @ [dg (n div 10 mod 10)] @ [dg (n mod 10)]
        \<in> lang (Seq (chr (dg 2)) (Seq (Cls [(dg 0, dg 4)]) (Cls [(dg 0, dg 9)])))"
      using d by (intro seq_in digit_in chr_in) simp_all
    moreover have "show_nat n = [dg 2] @ [dg (n div 10 mod 10)] @ [dg (n mod 10)]"
      using show_nat_3[of n] 4 d by simp
    ultimately show ?thesis unfolding octet_alts by (simp only: Un_iff) blast
  next
    case 5
    have d: "n div 100 = 2" "n div 10 mod 10 = 5" "n mod 10 \<le> 5" using 5 n by (rule digits_250_255)+
    have "([dg 2] @ [dg 5] @ []) @ [dg (n mod 10)]
        \<in> lang (Seq (Seq (chr (dg 2)) (Seq (chr (dg 5)) Eps)) (Cls [(dg 0, dg 5)]))"
      using d by (intro seq_in digit_in chr_in eps_in) simp_all
    moreover have "show_nat n = ([dg 2] @ [dg 5] @ []) @ [dg (n mod 10)]"
      using show_nat_3[of n] 5 n d by simp
    ultimately show ?thesis unfolding octet_alts by (simp only: Un_iff) blast
  qed
qed

lemma chr_out:
  assumes "w \<in> lang (chr c)"
  shows "w = [c]"
  using assms by simp

lemma two_digits:
  assumes "1 \<le> a" and "a \<le> 9" and "b \<le> 9"
  shows "show_nat (10 * a + b) = [dg a, dg b]"
proof -
  have r: "10 \<le> 10 * a + b" "10 * a + b < 100" using assms by simp_all
  have d: "(10 * a + b) div 10 = a" "(10 * a + b) mod 10 = b" using assms by simp_all
  show ?thesis unfolding show_nat_2[OF r] d ..
qed

lemma three_digits:
  assumes "1 \<le> a" and "a \<le> 9" and "b \<le> 9" and "c \<le> 9"
  shows "show_nat (100 * a + 10 * b + c) = [dg a, dg b, dg c]"
proof -
  have r: "100 \<le> 100 * a + 10 * b + c" "100 * a + 10 * b + c < 1000" using assms by simp_all
  have d1: "(100 * a + 10 * b + c) div 100 = a" using assms by simp
  have "(100 * a + 10 * b + c) div 10 = 10 * a + b" using assms by simp
  then have d2: "(100 * a + 10 * b + c) div 10 mod 10 = b" using assms by simp
  have d3: "(100 * a + 10 * b + c) mod 10 = c"
  proof -
    have "100 * a + 10 * b + c = 10 * (10 * a + b) + c" by simp
    then show ?thesis using assms by (simp only: mod_mult_self4) simp
  qed
  show ?thesis unfolding show_nat_3[OF r] d1 d2 d3 ..
qed

lemma octet_show_nat:
  assumes "w \<in> lang octet"
  shows "\<exists>n \<le> 255. w = show_nat n"
proof -
  from assms consider
      "w \<in> lang (Cls [(dg 0, dg 9)])"
    | "w \<in> lang (Seq (Cls [(dg 1, dg 9)]) (Cls [(dg 0, dg 9)]))"
    | "w \<in> lang (Seq (chr (dg 1)) (Seq (Cls [(dg 0, dg 9)]) (Seq (Cls [(dg 0, dg 9)]) Eps)))"
    | "w \<in> lang (Seq (chr (dg 2)) (Seq (Cls [(dg 0, dg 4)]) (Cls [(dg 0, dg 9)])))"
    | "w \<in> lang (Seq (Seq (chr (dg 2)) (Seq (chr (dg 5)) Eps)) (Cls [(dg 0, dg 5)]))"
    unfolding octet_alts by (simp only: Un_iff) blast
  then show ?thesis
  proof cases
    case 1
    then obtain k where k: "k \<le> 9" "w = [dg k]" by (rule digit_out) simp_all
    then have "w = show_nat k" using show_nat_1[of k] by simp
    with k show ?thesis by (intro exI[of _ k]) simp
  next
    case 2
    then obtain p q where pq: "w = p @ q" "p \<in> lang (Cls [(dg 1, dg 9)])"
      "q \<in> lang (Cls [(dg 0, dg 9)])" by (rule seq_out)
    from pq(2) obtain a where a: "1 \<le> a" "a \<le> 9" "p = [dg a]" by (rule digit_out) simp_all
    from pq(3) obtain b where b: "b \<le> 9" "q = [dg b]" by (rule digit_out) simp_all
    have "w = show_nat (10 * a + b)" using two_digits[OF a(1,2) b(1)] pq(1) a(3) b(2) by simp
    moreover have "10 * a + b \<le> 255" using a b by simp
    ultimately show ?thesis by blast
  next
    case 3
    then obtain p q where pq: "w = p @ q" "p \<in> lang (chr (dg 1))"
      "q \<in> lang (Seq (Cls [(dg 0, dg 9)]) (Seq (Cls [(dg 0, dg 9)]) Eps))" by (rule seq_out)
    from pq(3) obtain q1 q2 where q: "q = q1 @ q2" "q1 \<in> lang (Cls [(dg 0, dg 9)])"
      "q2 \<in> lang (Seq (Cls [(dg 0, dg 9)]) Eps)" by (rule seq_out)
    from q(3) obtain q3 q4 where q': "q2 = q3 @ q4" "q3 \<in> lang (Cls [(dg 0, dg 9)])"
      "q4 \<in> lang Eps" by (rule seq_out)
    from q(2) obtain b where b: "b \<le> 9" "q1 = [dg b]" by (rule digit_out) simp_all
    from q'(2) obtain c where c: "c \<le> 9" "q3 = [dg c]" by (rule digit_out) simp_all
    have "w = [dg 1, dg b, dg c]" using pq(1) chr_out[OF pq(2)] q(1) q'(1,3) b(2) c(2) by simp
    then have "w = show_nat (100 * 1 + 10 * b + c)"
      using three_digits[of 1 b c] b(1) c(1) by simp
    moreover have "100 * 1 + 10 * b + c \<le> 255" using b c by simp
    ultimately show ?thesis by blast
  next
    case 4
    then obtain p q where pq: "w = p @ q" "p \<in> lang (chr (dg 2))"
      "q \<in> lang (Seq (Cls [(dg 0, dg 4)]) (Cls [(dg 0, dg 9)]))" by (rule seq_out)
    from pq(3) obtain q1 q2 where q: "q = q1 @ q2" "q1 \<in> lang (Cls [(dg 0, dg 4)])"
      "q2 \<in> lang (Cls [(dg 0, dg 9)])" by (rule seq_out)
    from q(2) obtain b where b: "b \<le> 4" "q1 = [dg b]" by (rule digit_out) simp_all
    from q(3) obtain c where c: "c \<le> 9" "q2 = [dg c]" by (rule digit_out) simp_all
    have "w = [dg 2, dg b, dg c]" using pq(1) chr_out[OF pq(2)] q(1) b(2) c(2) by simp
    then have "w = show_nat (100 * 2 + 10 * b + c)"
      using three_digits[of 2 b c] b(1) c(1) by simp
    moreover have "100 * 2 + 10 * b + c \<le> 255" using b c by simp
    ultimately show ?thesis by blast
  next
    case 5
    then obtain p q where pq: "w = p @ q" "p \<in> lang (Seq (chr (dg 2)) (Seq (chr (dg 5)) Eps))"
      "q \<in> lang (Cls [(dg 0, dg 5)])" by (rule seq_out)
    from pq(2) have p: "p = [dg 2, dg 5]" by simp
    from pq(3) obtain c where c: "c \<le> 5" "q = [dg c]" by (rule digit_out) simp_all
    have "w = [dg 2, dg 5, dg c]" using pq(1) p c(2) by simp
    then have "w = show_nat (100 * 2 + 10 * 5 + c)"
      using three_digits[of 2 5 c] c(1) by simp
    moreover have "100 * 2 + 10 * 5 + c \<le> 255" using c by simp
    ultimately show ?thesis by blast
  qed
qed

lemma lang_octet: "lang octet = {show_nat n | n. n \<le> 255}"
  using show_nat_octet octet_show_nat by blast

lemma mask_alts:
  "lang mask =
     lang (Cls [(dg 0, dg 9)])
     \<union> (lang (Seq (Cls [(dg 1, dg 2)]) (Cls [(dg 0, dg 9)]))
     \<union> lang (Seq (chr (dg 3)) (Cls [(dg 0, dg 2)])))"
  by (simp only: mask_def digit_def alts.simps lang.simps(4) dg_chars)

lemma show_nat_mask: "n \<le> 32 \<Longrightarrow> show_nat n \<in> lang mask"
proof -
  assume n: "n \<le> 32"
  show ?thesis
  proof (cases n rule: mask_cases)
    case 1
    then have "[dg n] \<in> lang (Cls [(dg 0, dg 9)])" by (intro digit_in) simp_all
    then show ?thesis unfolding mask_alts show_nat_1[OF 1] by blast
  next
    case 2
    have r: "10 \<le> n" "n < 100" using 2 by simp_all
    have "1 \<le> n div 10" "n div 10 \<le> 2" "n mod 10 \<le> 9" using 2 by (rule digits_10_29)+
    then have "[dg (n div 10)] @ [dg (n mod 10)]
        \<in> lang (Seq (Cls [(dg 1, dg 2)]) (Cls [(dg 0, dg 9)]))"
      by (intro seq_in digit_in) simp_all
    then show ?thesis unfolding mask_alts show_nat_2[OF r] by simp
  next
    case 3
    have r: "10 \<le> n" "n < 100" using 3 n by simp_all
    have d: "n div 10 = 3" "n mod 10 \<le> 2" using 3 n by (rule digits_30_32)+
    have "[dg 3] @ [dg (n mod 10)] \<in> lang (Seq (chr (dg 3)) (Cls [(dg 0, dg 2)]))"
      using d by (intro seq_in digit_in chr_in) simp_all
    then show ?thesis unfolding mask_alts show_nat_2[OF r] d by simp
  qed
qed

lemma mask_show_nat:
  assumes "w \<in> lang mask"
  shows "\<exists>n \<le> 32. w = show_nat n"
proof -
  from assms consider
      "w \<in> lang (Cls [(dg 0, dg 9)])"
    | "w \<in> lang (Seq (Cls [(dg 1, dg 2)]) (Cls [(dg 0, dg 9)]))"
    | "w \<in> lang (Seq (chr (dg 3)) (Cls [(dg 0, dg 2)]))"
    unfolding mask_alts by (simp only: Un_iff) blast
  then show ?thesis
  proof cases
    case 1
    then obtain k where k: "k \<le> 9" "w = [dg k]" by (rule digit_out) simp_all
    then have "w = show_nat k" using show_nat_1[of k] by simp
    with k show ?thesis by (intro exI[of _ k]) simp
  next
    case 2
    then obtain p q where pq: "w = p @ q" "p \<in> lang (Cls [(dg 1, dg 2)])"
      "q \<in> lang (Cls [(dg 0, dg 9)])" by (rule seq_out)
    from pq(2) obtain a where a: "1 \<le> a" "a \<le> 2" "p = [dg a]" by (rule digit_out) simp_all
    from pq(3) obtain b where b: "b \<le> 9" "q = [dg b]" by (rule digit_out) simp_all
    have "w = show_nat (10 * a + b)" using two_digits[of a b] a b pq(1) by simp
    moreover have "10 * a + b \<le> 32" using a b by simp
    ultimately show ?thesis by blast
  next
    case 3
    then obtain p q where pq: "w = p @ q" "p \<in> lang (chr (dg 3))"
      "q \<in> lang (Cls [(dg 0, dg 2)])" by (rule seq_out)
    from pq(3) obtain b where b: "b \<le> 2" "q = [dg b]" by (rule digit_out) simp_all
    have "w = [dg 3, dg b]" using pq(1) chr_out[OF pq(2)] b(2) by simp
    then have "w = show_nat (10 * 3 + b)" using two_digits[of 3 b] b(1) by simp
    moreover have "10 * 3 + b \<le> 32" using b by simp
    ultimately show ?thesis by blast
  qed
qed

lemma lang_mask: "lang mask = {show_nat n | n. n \<le> 32}"
  using show_nat_mask mask_show_nat by blast

lemma lang_label: "lang label = label_texts"
proof -
  have "lang label = {p @ q | p q.
      p \<in> {[c] | c. in_cls c [(CHR ''a'', CHR ''z''), (CHR ''0'', CHR ''9'')]}
      \<and> q \<in> {w. \<forall>x \<in> set w. in_cls x [(CHR ''-'', CHR ''-''), (CHR ''a'', CHR ''z''), (CHR ''0'', CHR ''9'')]}}"
    unfolding label_def lang.simps star_Cls ..
  also have "\<dots> = label_texts"
    unfolding label_texts_def
  proof (intro equalityI subsetI)
    fix w assume "w \<in> {p @ q | p q.
      p \<in> {[c] | c. in_cls c [(CHR ''a'', CHR ''z''), (CHR ''0'', CHR ''9'')]}
      \<and> q \<in> {w. \<forall>x \<in> set w. in_cls x [(CHR ''-'', CHR ''-''), (CHR ''a'', CHR ''z''), (CHR ''0'', CHR ''9'')]}}"
    then obtain c q where "w = [c] @ q" "in_cls c [(CHR ''a'', CHR ''z''), (CHR ''0'', CHR ''9'')]"
      "\<forall>x \<in> set q. in_cls x [(CHR ''-'', CHR ''-''), (CHR ''a'', CHR ''z''), (CHR ''0'', CHR ''9'')]"
      by blast
    then show "w \<in> {c # cs | c cs.
        in_cls c [(CHR ''a'', CHR ''z''), (CHR ''0'', CHR ''9'')]
        \<and> (\<forall>x \<in> set cs. in_cls x [(CHR ''-'', CHR ''-''), (CHR ''a'', CHR ''z''), (CHR ''0'', CHR ''9'')])}"
      by (intro CollectI exI[of _ c] exI[of _ q]) simp
  next
    fix w assume "w \<in> {c # cs | c cs.
        in_cls c [(CHR ''a'', CHR ''z''), (CHR ''0'', CHR ''9'')]
        \<and> (\<forall>x \<in> set cs. in_cls x [(CHR ''-'', CHR ''-''), (CHR ''a'', CHR ''z''), (CHR ''0'', CHR ''9'')])}"
    then obtain c cs where "w = c # cs" "in_cls c [(CHR ''a'', CHR ''z''), (CHR ''0'', CHR ''9'')]"
      "\<forall>x \<in> set cs. in_cls x [(CHR ''-'', CHR ''-''), (CHR ''a'', CHR ''z''), (CHR ''0'', CHR ''9'')]"
      by blast
    then show "w \<in> {p @ q | p q.
      p \<in> {[c] | c. in_cls c [(CHR ''a'', CHR ''z''), (CHR ''0'', CHR ''9'')]}
      \<and> q \<in> {w. \<forall>x \<in> set w. in_cls x [(CHR ''-'', CHR ''-''), (CHR ''a'', CHR ''z''), (CHR ''0'', CHR ''9'')]}}"
      by (intro CollectI exI[of _ "[c]"] exI[of _ cs]) simp
  qed
  finally show ?thesis .
qed

lemma dotted_Cons: "dotted (l # ls) = l @ concat (map ((#) CHR ''.'') ls)"
  by (induction ls arbitrary: l) simp_all

lemma star_dot_labels:
  "q \<in> star {CHR ''.'' # l | l. l \<in> L} \<longleftrightarrow> (\<exists>ms. set ms \<subseteq> L \<and> q = concat (map ((#) CHR ''.'') ms))"
proof
  assume "q \<in> star {CHR ''.'' # l | l. l \<in> L}"
  then show "\<exists>ms. set ms \<subseteq> L \<and> q = concat (map ((#) CHR ''.'') ms)"
  proof (induction rule: star.induct)
    case star_nil
    have "set [] \<subseteq> L \<and> [] = concat (map ((#) CHR ''.'') ([] :: string list))" by simp
    then show ?case by blast
  next
    case (star_step p q)
    then obtain l ms where "l \<in> L" "p = CHR ''.'' # l" "set ms \<subseteq> L"
      "q = concat (map ((#) CHR ''.'') ms)"
      by blast
    then have "set (l # ms) \<subseteq> L \<and> p @ q = concat (map ((#) CHR ''.'') (l # ms))" by simp
    then show ?case by blast
  qed
next
  assume "\<exists>ms. set ms \<subseteq> L \<and> q = concat (map ((#) CHR ''.'') ms)"
  then obtain ms where "set ms \<subseteq> L" "q = concat (map ((#) CHR ''.'') ms)" by blast
  then show "q \<in> star {CHR ''.'' # l | l. l \<in> L}"
  proof (induction ms arbitrary: q)
    case Nil
    then show ?case by (simp add: star_nil)
  next
    case (Cons m ms)
    then have "CHR ''.'' # m \<in> {CHR ''.'' # l | l. l \<in> L}"
      "concat (map ((#) CHR ''.'') ms) \<in> star {CHR ''.'' # l | l. l \<in> L}"
      by simp_all
    then have "(CHR ''.'' # m) @ concat (map ((#) CHR ''.'') ms) \<in> star {CHR ''.'' # l | l. l \<in> L}"
      by (rule star_step)
    with Cons.prems show ?case by simp
  qed
qed

lemma lang_dot_label: "lang (Seq (chr CHR ''.'') label) = {CHR ''.'' # l | l. l \<in> label_texts}"
  unfolding lang.simps(3) lang_chr lang_label by auto

lemma lang_dotted:
  "lang (Seq label (plus (Seq (chr CHR ''.'') label)))
     = {dotted ls | ls. 2 \<le> length ls \<and> set ls \<subseteq> label_texts}"
proof (intro equalityI subsetI)
  fix w assume "w \<in> lang (Seq label (plus (Seq (chr CHR ''.'') label)))"
  then obtain l r where lr: "w = l @ r" "l \<in> label_texts"
    "r \<in> lang (plus (Seq (chr CHR ''.'') label))"
    unfolding lang.simps(3) lang_label by blast
  from lr(3) obtain p q where pq: "r = p @ q" "p \<in> {CHR ''.'' # l | l. l \<in> label_texts}"
    "q \<in> star {CHR ''.'' # l | l. l \<in> label_texts}"
    unfolding lang_plus lang_dot_label by blast
  from pq(2) obtain m where m: "m \<in> label_texts" "p = CHR ''.'' # m" by blast
  from pq(3) obtain ms where ms: "set ms \<subseteq> label_texts" "q = concat (map ((#) CHR ''.'') ms)"
    unfolding star_dot_labels by blast
  have "w = dotted (l # m # ms)" unfolding dotted_Cons using lr(1) pq(1) m(2) ms(2) by simp
  moreover have "2 \<le> length (l # m # ms)" by simp
  moreover have "set (l # m # ms) \<subseteq> label_texts" using lr(2) m(1) ms(1) by simp
  ultimately show "w \<in> {dotted ls | ls. 2 \<le> length ls \<and> set ls \<subseteq> label_texts}" by blast
next
  fix w assume "w \<in> {dotted ls | ls. 2 \<le> length ls \<and> set ls \<subseteq> label_texts}"
  then obtain ls where ls: "w = dotted ls" "2 \<le> length ls" "set ls \<subseteq> label_texts" by blast
  from ls(2) obtain l m ms where s: "ls = l # m # ms"
    by (cases ls; cases "tl ls") auto
  have q: "concat (map ((#) CHR ''.'') ms) \<in> star {CHR ''.'' # l | l. l \<in> label_texts}"
    unfolding star_dot_labels using ls(3) s by auto
  have p: "CHR ''.'' # m \<in> {CHR ''.'' # l | l. l \<in> label_texts}" using ls(3) s by simp
  have "(CHR ''.'' # m) @ concat (map ((#) CHR ''.'') ms) \<in> lang (plus (Seq (chr CHR ''.'') label))"
    unfolding lang_plus lang_dot_label using p q by blast
  moreover have "l \<in> lang label" unfolding lang_label using ls(3) s by simp
  ultimately have "l @ (CHR ''.'' # m) @ concat (map ((#) CHR ''.'') ms)
      \<in> lang (Seq label (plus (Seq (chr CHR ''.'') label)))"
    by (rule seq_in[rotated])
  then show "w \<in> lang (Seq label (plus (Seq (chr CHR ''.'') label)))"
    unfolding ls(1) s dotted_Cons by simp
qed

lemma in_cls_digit: "in_cls c [(CHR ''0'', CHR ''9'')] \<longleftrightarrow> is_digit c"
proof -
  have "in_cls c [(dg 0, dg 9)] \<longleftrightarrow> (\<exists>k. 0 \<le> k \<and> k \<le> 9 \<and> c = dg k)"
    by (rule digit_range) simp_all
  also have "\<dots> \<longleftrightarrow> (\<exists>k < 10. c = dg k)"
    by (simp add: less_Suc_eq_le[symmetric] del: less_Suc_eq_le) 
  also have "\<dots> \<longleftrightarrow> is_digit c" by (rule is_digit_dg[symmetric])
  finally show ?thesis unfolding dg_chars .
qed

lemma lang_plus_digit: "lang (plus digit) = {ds. ds \<noteq> [] \<and> (\<forall>d \<in> set ds. is_digit d)}"
proof -
  have "lang (plus digit) = {p @ q | p q. p \<in> {[c] | c. is_digit c} \<and> q \<in> {w. \<forall>c \<in> set w. is_digit c}}"
    unfolding lang_plus digit_def lang.simps(2) in_cls_digit star_Cls ..
  also have "\<dots> = {ds. ds \<noteq> [] \<and> (\<forall>d \<in> set ds. is_digit d)}"
  proof (intro equalityI subsetI)
    fix w assume "w \<in> {p @ q | p q. p \<in> {[c] | c. is_digit c} \<and> q \<in> {w. \<forall>c \<in> set w. is_digit c}}"
    then obtain c q where "w = [c] @ q" "is_digit c" "\<forall>c \<in> set q. is_digit c" by blast
    then show "w \<in> {ds. ds \<noteq> [] \<and> (\<forall>d \<in> set ds. is_digit d)}" by simp
  next
    fix w assume "w \<in> {ds. ds \<noteq> [] \<and> (\<forall>d \<in> set ds. is_digit d)}"
    then obtain c q where "w = c # q" "is_digit c" "\<forall>c \<in> set q. is_digit c"
      by (cases w) auto
    then show "w \<in> {p @ q | p q. p \<in> {[c] | c. is_digit c} \<and> q \<in> {w. \<forall>c \<in> set w. is_digit c}}"
      by (intro CollectI exI[of _ "[c]"] exI[of _ q]) simp
  qed
  finally show ?thesis .
qed

lemma lang_port: "lang (opt (Seq (chr CHR '':'') (plus digit))) = port_texts"
  unfolding lang_opt lang.simps(3) lang_chr lang_plus_digit port_texts_def by auto

lemma lang_host:
  "lang (Alt (lit ''localhost'') (Seq label (plus (Seq (chr CHR ''.'') label)))) = host_texts"
  unfolding lang.simps(4) lang_lit lang_dotted host_texts_def ..

lemma lang_url_re: "lang url_re = site_url_texts"
proof -
  have u: "url_re = Seq (Alt (lit ''http'') (lit ''https''))
      (Seq (lit ''://'')
        (Seq (Alt (lit ''localhost'') (Seq label (plus (Seq (chr CHR ''.'') label))))
             (opt (Seq (chr CHR '':'') (plus digit)))))"
    by (simp add: url_re_def)
  have s: "lang (Alt (lit ''http'') (lit ''https'')) = {''http'', ''https''}"
    unfolding lang.simps(4) lang_lit by blast
  have "lang url_re = {s @ r | s r. s \<in> {''http'', ''https''}
      \<and> r \<in> {x @ y | x y. x \<in> {''://''} \<and> y \<in> {h @ p | h p. h \<in> host_texts \<and> p \<in> port_texts}}}"
    unfolding u lang.simps(3) lang_host lang_port s lang_lit ..
  also have "\<dots> = site_url_texts"
    unfolding site_url_texts_def by blast
  finally show ?thesis .
qed

lemma lang_opt_mask: "lang (opt (Seq (chr CHR ''/'') mask)) = mask_texts"
  unfolding lang_opt lang.simps(3) lang_chr lang_mask mask_texts_def by auto

lemma lang_octet_dot: "lang (Seq octet (chr CHR ''.'')) = {show_nat n @ ''.'' | n. n \<le> 255}"
  unfolding lang.simps(3) lang_chr lang_octet by auto

lemma cidr_re_unfold:
  "cidr_re = Seq (Seq (Seq octet (chr CHR ''.''))
                   (Seq (Seq octet (chr CHR ''.'')) (Seq (Seq octet (chr CHR ''.'')) Eps)))
               (Seq octet (opt (Seq (chr CHR ''/'') mask)))"
  by (simp add: cidr_re_def numeral_3_eq_3)

lemma lang_cidr_re: "lang cidr_re = address_texts"
proof (intro equalityI subsetI)
  fix w assume "w \<in> lang cidr_re"
  then obtain r t where rt: "w = r @ t"
    "r \<in> lang (Seq (Seq octet (chr CHR ''.''))
                 (Seq (Seq octet (chr CHR ''.'')) (Seq (Seq octet (chr CHR ''.'')) Eps)))"
    "t \<in> lang (Seq octet (opt (Seq (chr CHR ''/'') mask)))"
    unfolding cidr_re_unfold by (rule seq_out)
  from rt(2) obtain x1 r1 where 1: "r = x1 @ r1" "x1 \<in> lang (Seq octet (chr CHR ''.''))"
    "r1 \<in> lang (Seq (Seq octet (chr CHR ''.'')) (Seq (Seq octet (chr CHR ''.'')) Eps))"
    by (rule seq_out)
  from 1(3) obtain x2 r2 where 2: "r1 = x2 @ r2" "x2 \<in> lang (Seq octet (chr CHR ''.''))"
    "r2 \<in> lang (Seq (Seq octet (chr CHR ''.'')) Eps)"
    by (rule seq_out)
  from 2(3) obtain x3 r3 where 3: "r2 = x3 @ r3" "x3 \<in> lang (Seq octet (chr CHR ''.''))"
    "r3 \<in> lang Eps"
    by (rule seq_out)
  from rt(3) obtain x4 m where 4: "t = x4 @ m" "x4 \<in> lang octet"
    "m \<in> lang (opt (Seq (chr CHR ''/'') mask))"
    by (rule seq_out)
  from 1(2) obtain a where a: "a \<le> 255" "x1 = show_nat a @ ''.''" unfolding lang_octet_dot by blast
  from 2(2) obtain b where b: "b \<le> 255" "x2 = show_nat b @ ''.''" unfolding lang_octet_dot by blast
  from 3(2) obtain c where c: "c \<le> 255" "x3 = show_nat c @ ''.''" unfolding lang_octet_dot by blast
  from 4(2) obtain d where d: "d \<le> 255" "x4 = show_nat d" unfolding lang_octet by blast
  from 4(3) have m: "m \<in> mask_texts" unfolding lang_opt_mask .
  have "w = show_nat a @ ''.'' @ show_nat b @ ''.'' @ show_nat c @ ''.'' @ show_nat d @ m"
    using rt(1) 1(1) 2(1) 3(1,3) 4(1) a(2) b(2) c(2) d(2) by simp
  with a(1) b(1) c(1) d(1) m show "w \<in> address_texts"
    unfolding address_texts_def by blast
next
  fix w assume "w \<in> address_texts"
  then obtain a b c d m where w: "w = show_nat a @ ''.'' @ show_nat b @ ''.'' @ show_nat c @ ''.'' @ show_nat d @ m"
    and r: "a \<le> 255" "b \<le> 255" "c \<le> 255" "d \<le> 255" "m \<in> mask_texts"
    unfolding address_texts_def by blast
  have x: "\<And>n. n \<le> 255 \<Longrightarrow> show_nat n @ ''.'' \<in> lang (Seq octet (chr CHR ''.''))"
    unfolding lang_octet_dot by blast
  have "show_nat c @ ''.'' @ [] \<in> lang (Seq (Seq octet (chr CHR ''.'')) Eps)"
    using seq_in[OF x[OF r(3)] eps_in] by simp
  from seq_in[OF x[OF r(2)] this]
  have "show_nat b @ ''.'' @ show_nat c @ ''.''
      \<in> lang (Seq (Seq octet (chr CHR ''.'')) (Seq (Seq octet (chr CHR ''.'')) Eps))"
    by simp
  from seq_in[OF x[OF r(1)] this]
  have 3: "show_nat a @ ''.'' @ show_nat b @ ''.'' @ show_nat c @ ''.''
      \<in> lang (Seq (Seq octet (chr CHR ''.''))
                 (Seq (Seq octet (chr CHR ''.'')) (Seq (Seq octet (chr CHR ''.'')) Eps)))"
    by simp
  have "show_nat d \<in> lang octet" unfolding lang_octet using r(4) by blast
  moreover have "m \<in> lang (opt (Seq (chr CHR ''/'') mask))" unfolding lang_opt_mask using r(5) .
  ultimately have 4: "show_nat d @ m \<in> lang (Seq octet (opt (Seq (chr CHR ''/'') mask)))"
    by (rule seq_in)
  from seq_in[OF 3 4] show "w \<in> lang cidr_re"
    unfolding cidr_re_unfold w by simp
qed

text \<open>
  C1 as stated fails: the bare address \<open>10.0.0.0/24\<close> has no scheme and is accepted. The
  pattern is an alternation of two groups, and only the first one starts with
  \<open>(http|https)://\<close>.
\<close>

theorem check_site_url_claim_counterexample:
  "check_site_url ''10.0.0.0/24'' \<and> \<not> claimed_site_url ''10.0.0.0/24''"
  by code_simp

text \<open>
  C1, amended: \<open>_check_site_url\<close> accepts every text that is \<open>http://\<close> or \<open>https://\<close>,
  then \<open>localhost\<close> or a hostname of at least two labels, then an optional \<open>:port\<close>; it
  accepts every bare dotted-quad address (no scheme, no port) with an optional \<open>/0-32\<close>
  suffix; and whatever it accepts begins with a text of the first kind or is a text of the
  second kind, possibly followed by one newline. It rejects \<open>ftp://x\<close>, \<open>http://foo\<close>
  and \<open>10.0.0.0/33\<close>.
\<close>

theorem check_site_url_grammar:
  "(u \<in> site_url_texts \<longrightarrow> check_site_url u)
   \<and> (u \<in> address_texts \<longrightarrow> check_site_url u)
   \<and> (check_site_url u \<longrightarrow>
        (\<exists>p r. u = p @ r \<and> p \<in> site_url_texts)
        \<or> u \<in> address_texts
        \<or> (\<exists>w. u = w @ [CHR 0x0A] \<and> w \<in> address_texts))
   \<and> \<not> check_site_url ''ftp://x'' \<and> \<not> check_site_url ''http://foo''
   \<and> \<not> check_site_url ''10.0.0.0/33''"
proof -
  have iff: "check_site_url u \<longleftrightarrow>
     (\<exists>p r. u = p @ r \<and> p \<in> site_url_texts)
     \<or> u \<in> address_texts
     \<or> (\<exists>w. u = w @ [CHR 0x0A] \<and> w \<in> address_texts)"
    using check_site_url_iff[of u] unfolding lang_url_re lang_cidr_re .
  have 1: "u \<in> site_url_texts \<longrightarrow> check_site_url u"
  proof
    assume "u \<in> site_url_texts"
    then have "\<exists>p r. u = p @ r \<and> p \<in> site_url_texts" by (intro exI[of _ u] exI[of _ "[]"]) simp
    then show "check_site_url u" unfolding iff by blast
  qed
  have 2: "u \<in> address_texts \<longrightarrow> check_site_url u" unfolding iff by blast
  have 3: "check_site_url u \<longrightarrow>
        (\<exists>p r. u = p @ r \<and> p \<in> site_url_texts)
        \<or> u \<in> address_texts
        \<or> (\<exists>w. u = w @ [CHR 0x0A] \<and> w \<in> address_texts)"
    using iff by blast
  have 4: "\<not> check_site_url ''ftp://x''" by code_simp
  have 5: "\<not> check_site_url ''http://foo''" by code_simp
  have 6: "\<not> check_site_url ''10.0.0.0/33''" by code_simp
  from 1 2 3 4 5 6 show ?thesis by blast
qed

theorem check_site_url_grammar_witness:
  "''https://www.mozilla.com:8080'' \<in> site_url_texts
   \<and> check_site_url ''https://www.mozilla.com:8080''
   \<and> ''10.0.0.0/24'' \<in> address_texts
   \<and> check_site_url ''10.0.0.0/24''
   \<and> check_site_url ''http://localhost''
   \<and> ((\<exists>p r. ''http://localhost'' = p @ r \<and> p \<in> site_url_texts)
        \<or> ''http://localhost'' \<in> address_texts
        \<or> (\<exists>w. ''http://localhost'' = w @ [CHR 0x0A] \<and> w \<in> address_texts))"
proof -
  have "(length ''https://www.mozilla.com:8080'', [])
      \<in> set (ends url_re (0, ''https://www.mozilla.com:8080''))"
    by code_simp
  with anchor_free_url_re have u: "''https://www.mozilla.com:8080'' \<in> site_url_texts"
    unfolding lang_url_re[symmetric] by (rule lang_if_ends)
  have "(length ''10.0.0.0/24'', []) \<in> set (ends cidr_re (0, ''10.0.0.0/24''))"
    by code_simp
  with anchor_free_cidr_re have a: "''10.0.0.0/24'' \<in> address_texts"
    unfolding lang_cidr_re[symmetric] by (rule lang_if_ends)
  have l: "check_site_url ''http://localhost''" by code_simp
  from check_site_url_grammar[of "''https://www.mozilla.com:8080''"] u
  have 1: "check_site_url ''https://www.mozilla.com:8080''" by blast
  from check_site_url_grammar[of "''10.0.0.0/24''"] a
  have 2: "check_site_url ''10.0.0.0/24''" by blast
  from check_site_url_grammar[of "''http://localhost''"] l
  have 3: "(\<exists>p r. ''http://localhost'' = p @ r \<and> p \<in> site_url_texts)
        \<or> ''http://localhost'' \<in> address_texts
        \<or> (\<exists>w. ''http://localhost'' = w @ [CHR 0x0A] \<and> w \<in> address_texts)"
    by blast
  from u a l 1 2 3 show ?thesis by blast
qed

end
